theory Spec2Isabelle
  imports Complex_Main
begin

section \<open>Text and characters\<close>

text \<open>
  A JavaScript string is modelled as a \<^typ>\<open>string\<close>: one \<^typ>\<open>char\<close> per UTF-16 code unit, for
  the code units below 256. \<open>length\<close> is then the source's \<open>.length\<close>.
\<close>

definition LF :: char where
  "LF = CHR 0x0A"

definition CR :: char where
  "CR = CHR 0x0D"

definition is_space :: "char \<Rightarrow> bool" where
  \<comment> \<open>the class \<open>\s\<close>, also what \<open>trim\<close> strips: tab, LF, VT, FF, CR, space, NBSP\<close>
  "is_space c = (c \<in> set [CHR 0x09, CHR 0x0A, CHR 0x0B, CHR 0x0C, CHR 0x0D, CHR 0x20, CHR 0xA0])"

definition is_digit :: "char \<Rightarrow> bool" where
  \<comment> \<open>the class \<open>\d\<close>\<close>
  "is_digit c = (c \<in> set ''0123456789'')"

definition line_terminator :: "char \<Rightarrow> bool" where
  \<comment> \<open>what \<open>.\<close> does not match\<close>
  "line_terminator c = (c = LF \<or> c = CR)"

definition upper_chars :: string where
  "upper_chars = ''ABCDEFGHIJKLMNOPQRSTUVWXYZ'' @
     [CHR 0xC0, CHR 0xC1, CHR 0xC2, CHR 0xC3, CHR 0xC4, CHR 0xC5, CHR 0xC6, CHR 0xC7,
      CHR 0xC8, CHR 0xC9, CHR 0xCA, CHR 0xCB, CHR 0xCC, CHR 0xCD, CHR 0xCE, CHR 0xCF,
      CHR 0xD0, CHR 0xD1, CHR 0xD2, CHR 0xD3, CHR 0xD4, CHR 0xD5, CHR 0xD6,
      CHR 0xD8, CHR 0xD9, CHR 0xDA, CHR 0xDB, CHR 0xDC, CHR 0xDD, CHR 0xDE]"

definition lower_chars :: string where
  "lower_chars = ''abcdefghijklmnopqrstuvwxyz'' @
     [CHR 0xE0, CHR 0xE1, CHR 0xE2, CHR 0xE3, CHR 0xE4, CHR 0xE5, CHR 0xE6, CHR 0xE7,
      CHR 0xE8, CHR 0xE9, CHR 0xEA, CHR 0xEB, CHR 0xEC, CHR 0xED, CHR 0xEE, CHR 0xEF,
      CHR 0xF0, CHR 0xF1, CHR 0xF2, CHR 0xF3, CHR 0xF4, CHR 0xF5, CHR 0xF6,
      CHR 0xF8, CHR 0xF9, CHR 0xFA, CHR 0xFB, CHR 0xFC, CHR 0xFD, CHR 0xFE]"

fun lower_char :: "char \<Rightarrow> char" where
  \<comment> \<open>a character is a \<^const>\<open>Char\<close> of its eight bits, lowest first; the capitals are
     \<open>0x41\<close> to \<open>0x5A\<close> and \<open>0xC0\<close> to \<open>0xDE\<close> without \<open>0xD7\<close>, and the small letter
     of a capital has bit 5 set\<close>
  "lower_char (Char b0 b1 b2 b3 b4 b5 b6 b7) =
     (if b6 \<and> \<not> b5 \<and>
         (if b7 then \<not> (b4 \<and> b2 \<and> b1 \<and> b0)
          else (b0 \<or> b1 \<or> b2 \<or> b3 \<or> b4) \<and> \<not> (b4 \<and> b3 \<and> (b2 \<or> b1 \<and> b0)))
      then Char b0 b1 b2 b3 b4 True b6 b7
      else Char b0 b1 b2 b3 b4 b5 b6 b7)"

definition toLowerCase :: "string \<Rightarrow> string" where
  "toLowerCase s = map lower_char s"

definition trim :: "string \<Rightarrow> string" where
  "trim s = rev (dropWhile is_space (rev (dropWhile is_space s)))"

fun str_includes :: "string \<Rightarrow> string \<Rightarrow> bool" where
  \<comment> \<open>\<open>s.includes(sub)\<close>\<close>
  "str_includes [] sub = (sub = [])"
| "str_includes (c # cs) sub = (take (length sub) (c # cs) = sub \<or> str_includes cs sub)"

section \<open>Errors\<close>

text \<open>
  A thrown \<open>Error\<close> is a value; a function that may throw returns \<open>Inl\<close> of the error or
  \<open>Inr\<close> of its result.
\<close>

datatype js_error = Error string

fun error_message :: "js_error \<Rightarrow> string" where
  "error_message (Error m) = m"

section \<open>The regular expressions of the pattern tables\<close>

text \<open>
  The indicator patterns of \<open>clause.service.js\<close> use literals, \<open>.*\<close>, groups with \<open>|\<close> and
  the postfix \<open>?\<close>, all under the flag \<open>i\<close>. \<open>source\<close> prints a pattern back as the text between
  the slashes of the source file (the \<open>.source\<close> of the RegExp object).
\<close>

datatype rx = Lit string | AnyStar | Seq rx rx | Alt rx rx | Opt rx

fun source :: "rx \<Rightarrow> string" where
  "source (Lit s) = s"
| "source AnyStar = ''.*''"
| "source (Seq a b) = source a @ source b"
| "source (Alt a b) = ''('' @ source a @ ''|'' @ source b @ '')''"
| "source (Opt a) = ''('' @ source a @ '')?''"

fun strip_ci :: "string \<Rightarrow> string \<Rightarrow> string option" where
  \<comment> \<open>a literal at the head of the text, compared case-insensitively; returns what follows\<close>
  "strip_ci [] s = Some s"
| "strip_ci (p # ps) [] = None"
| "strip_ci (p # ps) (c # cs) = (if lower_char c = lower_char p then strip_ci ps cs else None)"

primrec dot_star :: "(string \<Rightarrow> bool) \<Rightarrow> string \<Rightarrow> bool" where
  "dot_star k [] = k []"
| "dot_star k (c # cs) = (k (c # cs) \<or> (\<not> line_terminator c \<and> dot_star k cs))"

primrec rmatch :: "rx \<Rightarrow> (string \<Rightarrow> bool) \<Rightarrow> string \<Rightarrow> bool" where
  \<comment> \<open>\<open>rmatch r k s\<close>: \<open>r\<close> matches a prefix of \<open>s\<close> and the continuation \<open>k\<close> accepts the rest\<close>
  "rmatch (Lit l) k = (\<lambda>s. case strip_ci l s of None \<Rightarrow> False | Some t \<Rightarrow> k t)"
| "rmatch AnyStar k = dot_star k"
| "rmatch (Seq a b) k = rmatch a (rmatch b k)"
| "rmatch (Alt a b) k = (\<lambda>s. rmatch a k s \<or> rmatch b k s)"
| "rmatch (Opt a) k = (\<lambda>s. rmatch a k s \<or> k s)"

fun rx_test :: "rx \<Rightarrow> string \<Rightarrow> bool" where
  \<comment> \<open>\<open>pattern.test(text)\<close> for an unanchored pattern without the flag \<open>g\<close>\<close>
  "rx_test r [] = rmatch r (\<lambda>_. True) []"
| "rx_test r (c # cs) = (rmatch r (\<lambda>_. True) (c # cs) \<or> rx_test r cs)"

section \<open>Risk scoring: \<open>analyzeClauseRisk\<close>\<close>

record flag =
  severity :: string
  pattern :: string
  message :: string

record risk =
  risk_level :: string
  flags :: "flag list"
  requires_review :: bool

definition riskIndicators_high :: "rx list" where
  "riskIndicators_high =
    [Lit ''unlimited liability'',
     Lit ''sole discretion'',
     Lit ''without notice'',
     Lit ''automatic renewal'',
     Lit ''perpetual'',
     Lit ''irrevocable'',
     Seq (Lit ''waive'') (Seq AnyStar (Lit ''rights'')),
     Seq (Lit ''indemnify'') (Seq AnyStar (Lit ''all''))]"

definition riskIndicators_medium :: "rx list" where
  "riskIndicators_medium =
    [Lit ''may terminate'',
     Lit ''at any time'',
     Lit ''without cause'',
     Lit ''exclusive'',
     Lit ''binding'',
     Lit ''non-refundable'']"

definition riskIndicators_low :: "rx list" where
  "riskIndicators_low =
    [Lit ''reasonable'',
     Lit ''mutual'',
     Lit ''written consent'',
     Lit ''good faith'',
     Lit ''commercially reasonable'']"

definition high_flag :: "rx \<Rightarrow> flag" where
  "high_flag p = \<lparr>severity = ''high'', pattern = source p,
     message = ''This clause contains potentially unfavorable terms''\<rparr>"

definition medium_flag :: "rx \<Rightarrow> flag" where
  "medium_flag p = \<lparr>severity = ''medium'', pattern = source p,
     message = ''This clause may require careful review''\<rparr>"

text \<open>
  The two \<open>for\<close> loops of the source, over the state \<open>(riskLevel, flags)\<close>; \<open>flags.push\<close>
  appends at the end.
\<close>

fun high_loop :: "string \<Rightarrow> rx list \<Rightarrow> string \<times> flag list \<Rightarrow> string \<times> flag list" where
  "high_loop text [] st = st"
| "high_loop text (p # ps) (riskLevel, fl) =
     (if rx_test p text then high_loop text ps (''high'', fl @ [high_flag p])
      else high_loop text ps (riskLevel, fl))"

fun medium_loop :: "string \<Rightarrow> rx list \<Rightarrow> string \<times> flag list \<Rightarrow> string \<times> flag list" where
  "medium_loop text [] st = st"
| "medium_loop text (p # ps) (riskLevel, fl) =
     (if rx_test p text then medium_loop text ps (''medium'', fl @ [medium_flag p])
      else medium_loop text ps (riskLevel, fl))"

definition analyzeClauseRisk :: "string \<Rightarrow> string \<Rightarrow> risk" where
  \<comment> \<open>\<open>clauseType\<close> is accepted and unused, as is the low list\<close>
  "analyzeClauseRisk text clauseType =
     (let st1 = high_loop text riskIndicators_high (''low'', []);
          st2 = (if fst st1 \<noteq> ''high'' then medium_loop text riskIndicators_medium st1 else st1)
      in \<lparr>risk_level = fst st2, flags = snd st2, requires_review = (fst st2 \<noteq> ''low'')\<rparr>)"

section \<open>Splitting a string at a regular expression\<close>

text \<open>
  \<open>String.prototype.split\<close> with a regular expression: the pattern is tried at every
  position from the end of the last match on; the text before a match, then the match's
  captures, are pushed; the rest of the text is pushed at the end. \<open>m s\<close> says whether the
  pattern matches at the head of \<open>s\<close>, with its captures and what follows the match. A
  match that consumes nothing is passed over; the patterns below never match the empty
  string.
\<close>

function split_re :: "(string \<Rightarrow> (string list \<times> string) option) \<Rightarrow> string \<Rightarrow> string \<Rightarrow> string list" where
  "split_re m acc [] = [rev acc]"
| "split_re m acc (c # cs) =
     (case m (c # cs) of
        None \<Rightarrow> split_re m (c # acc) cs
      | Some (caps, rest) \<Rightarrow>
          if length rest < length (c # cs) then rev acc # caps @ split_re m [] rest
          else split_re m (c # acc) cs)"
  by pat_completeness auto
termination
  by (relation "measure (\<lambda>(m, acc, s). length s)") auto

text \<open>\<open>/\s+/\<close> at the head of \<open>s\<close>: one space and all that follow.\<close>

definition match_spaces :: "string \<Rightarrow> (string list \<times> string) option" where
  "match_spaces s =
     (case s of
        [] \<Rightarrow> None
      | c # r \<Rightarrow> if is_space c then Some ([], dropWhile is_space r) else None)"

section \<open>Classification: \<open>classifyClause\<close>\<close>

definition CLAUSE_PATTERNS :: "(string \<times> rx list) list" where
  \<comment> \<open>the object literal, as its entries in insertion order\<close>
  "CLAUSE_PATTERNS =
    [(''confidentiality'',
       [Seq (Lit ''confidential'') (Opt (Lit ''ity'')),
        Lit ''non-disclosure'',
        Lit ''proprietary information'',
        Lit ''trade secret'',
        Lit ''sensitive information'']),
     (''termination'',
       [Seq (Lit ''terminat'') (Alt (Lit ''e'') (Lit ''ion'')),
        Seq (Lit ''cancel'') (Opt (Lit ''lation'')),
        Seq (Lit ''end of '') (Seq (Opt (Lit ''the '')) (Lit ''agreement'')),
        Lit ''notice period'',
        Seq (Lit ''expir'') (Alt (Lit ''e'') (Lit ''ation''))]),
     (''liability'',
       [Seq (Lit ''liabilit'') (Alt (Lit ''y'') (Lit ''ies'')),
        Seq (Lit ''indemnif'') (Alt (Lit ''y'') (Lit ''ication'')),
        Lit ''damages'',
        Lit ''limitation of liability'',
        Lit ''hold harmless'']),
     (''payment'',
       [Lit ''payment'',
        Seq (Lit ''fee'') (Opt (Lit ''s'')),
        Lit ''compensation'',
        Lit ''invoice'',
        Lit ''price'',
        Lit ''cost'']),
     (''intellectual_property'',
       [Lit ''intellectual property'',
        Lit ''copyright'',
        Lit ''patent'',
        Lit ''trademark'',
        Lit ''ownership'',
        Lit ''license'']),
     (''governing_law'',
       [Lit ''governing law'',
        Lit ''jurisdiction'',
        Lit ''applicable law'',
        Lit ''venue'',
        Lit ''dispute resolution'']),
     (''warranty'',
       [Seq (Lit ''warrant'') (Alt (Lit ''y'') (Lit ''ies'')),
        Lit ''representation'',
        Lit ''guarantee'',
        Lit ''assurance'']),
     (''force_majeure'',
       [Lit ''force majeure'',
        Lit ''act of god'',
        Lit ''unforeseeable'',
        Seq (Lit ''beyond'') (Seq AnyStar (Lit ''control''))]),
     (''assignment'',
       [Lit ''assignment'',
        Lit ''transfer'',
        Lit ''successor'',
        Seq (Lit ''assign'') (Seq AnyStar (Lit ''rights''))]),
     (''amendment'',
       [Lit ''amendment'',
        Lit ''modification'',
        Seq (Lit ''change'') (Seq AnyStar (Lit ''agreement'')),
        Lit ''written consent'']),
     (''entire_agreement'',
       [Lit ''entire agreement'',
        Lit ''complete agreement'',
        Lit ''supersede'',
        Lit ''prior agreement'']),
     (''severability'',
       [Seq (Lit ''severabilit'') (Opt (Lit ''y'')),
        Seq (Lit ''invalid'') (Seq AnyStar (Lit ''provision'')),
        Lit ''unenforceable''])]"

text \<open>
  \<open>classifyClause\<close> calls the library compromise on every text: \<open>compromise(text)\<close> at its
  start and \<open>doc.dates()\<close>, \<open>doc.money()\<close>, \<open>doc.organizations()\<close> and \<open>doc.people()\<close>,
  each with \<open>.out('array')\<close>, before it returns. The library is not part of the repository:
  the outcome of these calls on a text, the four lists or the error that one of them
  throws, is a parameter. Nothing with an effect stands between the calls, so that one
  outcome stands for all of them.
\<close>

record entity_lists =
  dates :: "string list"
  money :: "string list"
  organizations :: "string list"
  people :: "string list"

record classification =
  clause_type :: string
  confidence :: real
  entities :: entity_lists
  word_count :: nat

fun score_loop :: "string \<Rightarrow> rx list \<Rightarrow> nat \<Rightarrow> nat" where
  \<comment> \<open>the inner \<open>for\<close> loop: one point per pattern that matches\<close>
  "score_loop text [] score = score"
| "score_loop text (p # ps) score =
     score_loop text ps (if rx_test p text then score + 1 else score)"

definition scores_of :: "string \<Rightarrow> (string \<times> nat) list" where
  \<comment> \<open>the object \<open>scores\<close>, as its entries in insertion order\<close>
  "scores_of text = map (\<lambda>(type, patterns). (type, score_loop text patterns 0)) CLAUSE_PATTERNS"

fun max_loop :: "(string \<times> nat) list \<Rightarrow> nat \<times> string \<Rightarrow> nat \<times> string" where
  \<comment> \<open>the second loop, over the state \<open>(maxScore, clauseType)\<close>\<close>
  "max_loop [] st = st"
| "max_loop ((type, score) # rest) (maxScore, clauseType) =
     (if score > maxScore then max_loop rest (score, type)
      else max_loop rest (maxScore, clauseType))"

definition classifyClause :: "(string \<Rightarrow> js_error + entity_lists) \<Rightarrow> string \<Rightarrow> js_error + classification" where
  \<comment> \<open>an error of the library leaves the function, which has no \<open>try\<close>; the division is the
     exact one\<close>
  "classifyClause compromise text =
     (case compromise text of
        Inl err \<Rightarrow> Inl err
      | Inr found \<Rightarrow>
          let scores = scores_of text;
              (maxScore, clauseType) = max_loop scores (0, ''general'');
              totalMatches = foldl (+) 0 (map snd scores);
              conf = (if totalMatches > 0 then real maxScore / real totalMatches else 1 / 2)
          in Inr \<lparr>clause_type = clauseType, confidence = min conf 1, entities = found,
                  word_count = length (split_re match_spaces [] text)\<rparr>)"

definition no_entities :: "string \<Rightarrow> js_error + entity_lists" where
  \<comment> \<open>an entity extraction that returns and finds nothing\<close>
  "no_entities text = Inr \<lparr>dates = [], money = [], organizations = [], people = []\<rparr>"

text \<open>
  The score of a type and the number of matches over all types, stated on the pattern table
  itself: what the loops of \<open>classifyClause\<close> are meant to compute.
\<close>

definition score_for :: "string \<Rightarrow> string \<Rightarrow> nat" where
  "score_for text type =
     (case map_of CLAUSE_PATTERNS type of
        None \<Rightarrow> 0
      | Some patterns \<Rightarrow> length (filter (\<lambda>p. rx_test p text) patterns))"

definition total_matches :: "string \<Rightarrow> nat" where
  "total_matches text =
     sum_list (map (\<lambda>(type, patterns). length (filter (\<lambda>p. rx_test p text) patterns)) CLAUSE_PATTERNS)"

section \<open>Segmentation: \<open>segmentClauses\<close>\<close>

text \<open>
  \<open>/\n\s*(\d+\.(?:\d+\.?)?)\s+/\<close> at the head of \<open>s\<close>. No character is both a space and a
  digit, and what follows a run of digits is not a digit, so the greedy choice at each
  quantifier is the only one that can lead to a match: all spaces, all digits, the dot,
  then, if a digit follows, all digits and an optional dot, then at least one space and
  all that follow.
\<close>

definition match_numbered :: "string \<Rightarrow> (string list \<times> string) option" where
  "match_numbered s =
     (case s of
        [] \<Rightarrow> None
      | c # r \<Rightarrow>
          if c \<noteq> LF then None
          else
            let r1 = dropWhile is_space r;
                d1 = takeWhile is_digit r1;
                r2 = dropWhile is_digit r1
            in if d1 = [] then None
               else (case r2 of
                  [] \<Rightarrow> None
                | dot # r3 \<Rightarrow>
                    if dot \<noteq> CHR ''.'' then None
                    else
                      let d2 = takeWhile is_digit r3;
                          r4 = dropWhile is_digit r3;
                          (cap, r5) =
                            (if d2 = [] then (d1 @ ''.'', r3)
                             else if r4 \<noteq> [] \<and> hd r4 = CHR ''.''
                                  then (d1 @ ''.'' @ d2 @ ''.'', tl r4)
                                  else (d1 @ ''.'' @ d2, r4))
                      in if r5 \<noteq> [] \<and> is_space (hd r5)
                         then Some ([cap], dropWhile is_space r5)
                         else None))"

text \<open>
  \<open>/\n\s*\n/\<close> at the head of \<open>s\<close>: a line feed, then the longest run of spaces that ends
  with a line feed.
\<close>

definition match_blank :: "string \<Rightarrow> (string list \<times> string) option" where
  "match_blank s =
     (case s of
        [] \<Rightarrow> None
      | c # r \<Rightarrow>
          if c \<noteq> LF then None
          else
            let ws = takeWhile is_space r;
                n = length ws - length (takeWhile (\<lambda>x. x \<noteq> LF) (rev ws))
            in if LF \<in> set ws then Some ([], drop n r) else None)"

record raw_clause =
  section_number :: "string option"
  clause_text :: string
  position :: nat

fun join :: "string \<Rightarrow> string list \<Rightarrow> string" where
  "join sep [] = []"
| "join sep [x] = x"
| "join sep (x # y # ys) = x @ sep @ join sep (y # ys)"

text \<open>
  The loop over the numbered sections, \<open>for (let i = 1; i < n; i += 2)\<close>. \<open>sectionText\<close> is
  \<open>undefined\<close> past the end of the array and is then skipped, like an empty string.
\<close>

function numbered_loop :: "string list \<Rightarrow> nat \<Rightarrow> raw_clause list \<Rightarrow> raw_clause list" where
  "numbered_loop numberedSections i clauses =
     (if i < length numberedSections then
        let sectionNumber = numberedSections ! i;
            sectionText = (if i + 1 < length numberedSections then numberedSections ! (i + 1) else [])
        in numbered_loop numberedSections (i + 2)
             (if sectionText \<noteq> [] \<and> length (trim sectionText) > 20
              then clauses @ [\<lparr>section_number = Some sectionNumber,
                                clause_text = trim sectionText, position = i div 2\<rparr>]
              else clauses)
      else clauses)"
  by pat_completeness auto
termination
  by (relation "measure (\<lambda>(ps, i, cl). length ps - i)") auto

fun paragraph_loop :: "string list \<Rightarrow> nat \<Rightarrow> raw_clause list \<Rightarrow> raw_clause list" where
  \<comment> \<open>\<open>paragraphs.forEach((para, index) => ...)\<close>\<close>
  "paragraph_loop [] index clauses = clauses"
| "paragraph_loop (para # rest) index clauses =
     (let trimmed = trim para
      in paragraph_loop rest (index + 1)
           (if length trimmed > 50
            then clauses @ [\<lparr>section_number = None, clause_text = trimmed, position = index\<rparr>]
            else clauses))"

definition sentencesPerClause :: nat where
  "sentencesPerClause = 3"

function sentence_loop :: "string list \<Rightarrow> nat \<Rightarrow> raw_clause list \<Rightarrow> raw_clause list" where
  "sentence_loop sentences i clauses =
     (if i < length sentences then
        let clauseText = join '' '' (take sentencesPerClause (drop i sentences))
        in sentence_loop sentences (i + sentencesPerClause)
             (if length (trim clauseText) > 50
              then clauses @ [\<lparr>section_number = None, clause_text = trim clauseText,
                                position = i div sentencesPerClause\<rparr>]
              else clauses)
      else clauses)"
  by pat_completeness auto
termination
  by (relation "measure (\<lambda>(ss, i, cl). length ss - i)") (auto simp: sentencesPerClause_def)

text \<open>
  \<open>tokenize\<close> stands for \<open>new natural.SentenceTokenizer().tokenize\<close>, a library function
  that is not part of the repository; it is consulted only when the first two strategies
  gave no clause.
\<close>

definition segmentClauses :: "(string \<Rightarrow> string list) \<Rightarrow> string \<Rightarrow> raw_clause list" where
  "segmentClauses tokenize text =
     (let numberedSections = split_re match_numbered [] text;
          clauses =
            (if length numberedSections > 3 then numbered_loop numberedSections 1 []
             else paragraph_loop (split_re match_blank [] text) 0 [])
      in if length clauses = 0 then sentence_loop (tokenize text) 0 clauses
         else clauses)"

definition whole_text :: "string \<Rightarrow> string list" where
  \<comment> \<open>a tokenizer that finds one sentence, the text itself\<close>
  "whole_text text = [text]"

section \<open>Embeddings: \<open>cosineSimilarity\<close>\<close>

text \<open>
  The arithmetic of \<open>cosineSimilarity\<close> is modelled on the reals. The loop runs over the
  indices of \<open>embedding1\<close>; it is entered only when both arrays have the same length, so
  every read is in range.
\<close>

function cosine_loop :: "real list \<Rightarrow> real list \<Rightarrow> nat \<Rightarrow> real \<times> real \<times> real \<Rightarrow> real \<times> real \<times> real" where
  "cosine_loop embedding1 embedding2 i (dotProduct, norm1, norm2) =
     (if i < length embedding1 then
        cosine_loop embedding1 embedding2 (i + 1)
          (dotProduct + embedding1 ! i * embedding2 ! i,
           norm1 + embedding1 ! i * embedding1 ! i,
           norm2 + embedding2 ! i * embedding2 ! i)
      else (dotProduct, norm1, norm2))"
  by pat_completeness auto
termination
  by (relation "measure (\<lambda>(e1, e2, i, st). length e1 - i)") auto

definition cosineSimilarity :: "real list \<Rightarrow> real list \<Rightarrow> js_error + real" where
  "cosineSimilarity embedding1 embedding2 =
     (if length embedding1 \<noteq> length embedding2
      then Inl (Error ''Embeddings must have the same dimension'')
      else
        let (dotProduct, n1, n2) = cosine_loop embedding1 embedding2 0 (0, 0, 0);
            norm1 = sqrt n1;
            norm2 = sqrt n2
        in if norm1 = 0 \<or> norm2 = 0 then Inr 0
           else Inr (dotProduct / (norm1 * norm2)))"

section \<open>Numbers as text: \<open>Number::toString\<close> and \<open>parseFloat\<close>\<close>

text \<open>
  \<open>Array.prototype.join\<close> prints a number with \<open>Number::toString\<close>, which for a finite
  non-zero number \<open>x\<close> takes the integers \<open>n\<close>, \<open>k\<close> and \<open>s\<close> with \<open>k \<ge> 1\<close>,
  \<open>10\<^sup>k\<^sup>-\<^sup>1 \<le> s < 10\<^sup>k\<close>, \<open>s \<times> 10\<^sup>n\<^sup>-\<^sup>k\<close> the value \<open>x\<close> and \<open>k\<close> as small as possible, and
  prints from them. A number is modelled by exactly these: \<open>Dec neg ds n\<close> is the number
  with sign \<open>neg\<close>, the decimal digits \<open>ds\<close> of \<open>s\<close> (so \<open>k = length ds\<close>) and the exponent
  \<open>n\<close>. \<open>parseFloat\<close> returns the number denoted by the literal it reads, brought to this
  form. The two zeros, which are equal and both print as \<open>0\<close>, are one value.
\<close>

datatype jsnum = NaN | PosInfinity | NegInfinity | Zero | Dec bool "nat list" int

definition wf_num :: "jsnum \<Rightarrow> bool" where
  \<comment> \<open>the digits of \<open>s\<close>: at least one, none above 9, no zero in front, and none at the end
     since \<open>k\<close> is minimal\<close>
  "wf_num x =
     (case x of
        Dec neg ds n \<Rightarrow> ds \<noteq> [] \<and> list_all (\<lambda>d. d < 10) ds \<and> hd ds \<noteq> 0 \<and> last ds \<noteq> 0
      | _ \<Rightarrow> True)"

definition digit_char :: "nat \<Rightarrow> char" where
  "digit_char d = ''0123456789'' ! d"

definition digit_val :: "char \<Rightarrow> nat" where
  "digit_val c = of_char c - 48"

function digits_of :: "nat \<Rightarrow> nat list" where
  "digits_of m = (if m < 10 then [m] else digits_of (m div 10) @ [m mod 10])"
  by pat_completeness auto
termination
  by (relation "measure id") auto

definition nat_of_digits :: "nat list \<Rightarrow> nat" where
  "nat_of_digits ds = foldl (\<lambda>a d. 10 * a + d) 0 ds"

definition num_to_string :: "jsnum \<Rightarrow> string" where
  "num_to_string x =
     (case x of
        NaN \<Rightarrow> ''NaN''
      | PosInfinity \<Rightarrow> ''Infinity''
      | NegInfinity \<Rightarrow> ''-Infinity''
      | Zero \<Rightarrow> ''0''
      | Dec neg ds n \<Rightarrow>
          (if neg then ''-'' else '''') @
          (let k = int (length ds);
               digits = map digit_char ds
           in if k \<le> n \<and> n \<le> 21 then digits @ replicate (nat (n - k)) (CHR ''0'')
              else if 0 < n \<and> n \<le> 21 then take (nat n) digits @ ''.'' @ drop (nat n) digits
              else if - 6 < n \<and> n \<le> 0 then ''0.'' @ replicate (nat (- n)) (CHR ''0'') @ digits
              else
                let e = n - 1;
                    exponent = (if e < 0 then ''-'' else ''+'') @ map digit_char (digits_of (nat \<bar>e\<bar>))
                in if k = 1 then digits @ ''e'' @ exponent
                   else take 1 digits @ ''.'' @ drop 1 digits @ ''e'' @ exponent))"

definition read_sign :: "string \<Rightarrow> bool \<times> string" where
  "read_sign s =
     (case s of
        [] \<Rightarrow> (False, [])
      | c # r \<Rightarrow> if c = CHR ''-'' then (True, r) else if c = CHR ''+'' then (False, r) else (False, s))"

definition read_exponent :: "string \<Rightarrow> int" where
  \<comment> \<open>an exponent part counts only if at least one digit follows its sign\<close>
  "read_exponent s =
     (case s of
        [] \<Rightarrow> 0
      | c # r \<Rightarrow>
          if c = CHR ''e'' \<or> c = CHR ''E'' then
            let (eneg, r1) = read_sign r;
                ds = takeWhile is_digit r1;
                v = int (nat_of_digits (map digit_val ds))
            in if ds = [] then 0 else if eneg then - v else v
          else 0)"

definition mk_dec :: "bool \<Rightarrow> nat list \<Rightarrow> int \<Rightarrow> jsnum" where
  \<comment> \<open>the number \<open>0.d\<^sub>1d\<^sub>2\<dots> \<times> 10\<^sup>n\<close>, without its zeros in front and at the end\<close>
  "mk_dec neg ds n =
     (let z = length (takeWhile (\<lambda>d. d = 0) ds);
          ds1 = dropWhile (\<lambda>d. d = 0) ds;
          ds2 = rev (dropWhile (\<lambda>d. d = 0) (rev ds1))
      in if ds2 = [] then Zero else Dec neg ds2 (n - int z))"

definition parseFloat :: "string \<Rightarrow> jsnum" where
  \<comment> \<open>the longest prefix of the trimmed string that is a \<open>StrDecimalLiteral\<close>: a sign, then
     \<open>Infinity\<close>, or digits with an optional fraction and exponent; \<open>NaN\<close> if there is none\<close>
  "parseFloat inputString =
     (let trimmed = dropWhile is_space inputString;
          (neg, r0) = read_sign trimmed
      in if take 8 r0 = ''Infinity'' then (if neg then NegInfinity else PosInfinity)
         else
           let ip = takeWhile is_digit r0;
               r1 = dropWhile is_digit r0;
               (fp, r2) =
                 (if r1 \<noteq> [] \<and> hd r1 = CHR ''.''
                  then (takeWhile is_digit (tl r1), dropWhile is_digit (tl r1))
                  else ([], r1))
           in if ip = [] \<and> fp = [] then NaN
              else mk_dec neg (map digit_val (ip @ fp)) (int (length ip) + read_exponent r2))"

section \<open>Embeddings as text: \<open>formatEmbeddingForDB\<close> and \<open>parseEmbeddingFromDB\<close>\<close>

definition EMBEDDING_DIMENSION :: nat where
  \<comment> \<open>the dimension of the vectors of \<open>generateEmbedding\<close>\<close>
  "EMBEDDING_DIMENSION = 384"

definition formatEmbeddingForDB :: "jsnum list \<Rightarrow> string" where
  "formatEmbeddingForDB embedding = ''['' @ join '','' (map num_to_string embedding) @ '']''"

definition strip_brackets :: "string \<Rightarrow> string" where
  \<comment> \<open>\<open>.replace(/^\[|\]$/g, '')\<close>: a bracket at the very start and one at the very end\<close>
  "strip_brackets s =
     (let s1 = (if s \<noteq> [] \<and> hd s = CHR ''['' then tl s else s)
      in if s1 \<noteq> [] \<and> last s1 = CHR '']'' then butlast s1 else s1)"

fun split_char :: "char \<Rightarrow> string \<Rightarrow> string \<Rightarrow> string list" where
  \<comment> \<open>\<open>.split(',')\<close>, the separator being one character; the empty string gives one empty
     piece\<close>
  "split_char sep acc [] = [rev acc]"
| "split_char sep acc (c # cs) =
     (if c = sep then rev acc # split_char sep [] cs else split_char sep (c # acc) cs)"

definition parseEmbeddingFromDB :: "string \<Rightarrow> jsnum list" where
  "parseEmbeddingFromDB vectorString =
     map parseFloat (split_char (CHR '','') [] (strip_brackets vectorString))"

section \<open>Text extraction: \<open>extractText\<close>\<close>

text \<open>
  What the services call outside the repository is a parameter of the model, held in one
  record: Node's \<open>path.extname\<close>; the reading of a PDF file (\<open>fs.readFile\<close> then
  \<open>pdf-parse\<close>: the text and the number of pages) and of a Word file (\<open>mammoth\<close>: the raw
  text); the sentence tokenizer of \<open>natural\<close>; the entity extraction of \<open>compromise\<close>; the
  embedding model, called for the \<open>k\<close>-th clause of a job; and the database, with each
  statement of the job processor. Each of them but the first may throw.
  \<open>extractClauseTitle\<close>, whose result plays no part in what is proved here, is a parameter
  as well, and may throw like the tokenizer it calls.
\<close>

datatype stmt =
    JobProcessing | ContractExtracted | InsertClause nat | ContractAnalyzed | JobCompleted
  | ContractFailed | JobFailed

record env =
  path_extname :: "string \<Rightarrow> string"
  pdf_parse :: "string \<Rightarrow> js_error + string \<times> nat"
  mammoth_extractRawText :: "string \<Rightarrow> js_error + string"
  sentence_tokenizer :: "string \<Rightarrow> js_error + string list"
  compromise_entities :: "string \<Rightarrow> js_error + entity_lists"
  extractClauseTitle :: "string \<Rightarrow> js_error + string option"
  generateEmbedding :: "nat \<Rightarrow> string \<Rightarrow> js_error + jsnum list"
  query_error :: "stmt \<Rightarrow> js_error option"

record metadata =
  pages :: nat
  characterCount :: nat
  wordCount :: nat

record extraction =
  ex_text :: string
  ex_metadata :: metadata

definition extractFromPDF :: "env \<Rightarrow> string \<Rightarrow> js_error + string \<times> nat" where
  "extractFromPDF e path =
     (case pdf_parse e path of
        Inl err \<Rightarrow> Inl (Error (''Failed to extract text from PDF: '' @ error_message err))
      | Inr (t, numpages) \<Rightarrow> Inr (t, numpages))"

definition extractFromDOCX :: "env \<Rightarrow> string \<Rightarrow> js_error + string \<times> nat" where
  \<comment> \<open>\<open>estimatedPages = Math.ceil(wordCount / 500)\<close>\<close>
  "extractFromDOCX e path =
     (case mammoth_extractRawText e path of
        Inl err \<Rightarrow> Inl (Error (''Failed to extract text from DOCX: '' @ error_message err))
      | Inr v \<Rightarrow> Inr (v, (length (split_re match_spaces [] v) + 499) div 500))"

definition extractText :: "env \<Rightarrow> string \<Rightarrow> string \<Rightarrow> js_error + extraction" where
  \<comment> \<open>of the metadata, the fields that the job processor reads; those of
     \<open>extractContractMetadata\<close> are left out\<close>
  "extractText e path ftype =
     (let ext = toLowerCase (path_extname e path);
          result =
            (if ext = ''.pdf'' \<or> ftype = ''application/pdf'' then extractFromPDF e path
             else if ext = ''.docx'' \<or> ext = ''.doc'' \<or> str_includes ftype ''wordprocessingml''
             then extractFromDOCX e path
             else Inl (Error (''Unsupported file type: '' @ ext)))
      in case result of
           Inl err \<Rightarrow> Inl err
         | Inr (t, pgs) \<Rightarrow>
             Inr \<lparr>ex_text = t,
                  ex_metadata = \<lparr>pages = pgs, characterCount = length t,
                                 wordCount = length (split_re match_spaces [] t)\<rparr>\<rparr>)"

section \<open>The pipeline of one clause: \<open>extractAndClassifyClauses\<close>\<close>

record processed_clause =
  c_position :: nat
  c_section_number :: "string option"
  c_title :: "string option"
  c_text :: string
  c_clause_type :: string
  c_confidence :: real
  c_entities :: entity_lists
  c_word_count :: nat
  c_risk_level :: string
  c_risk_flags :: "flag list"
  c_requires_review :: bool

text \<open>
  \<open>segmentClauses\<close> with a tokenizer that may throw. The tokenizer is called only when the
  first two strategies gave no clause, which is when a tokenizer that finds no sentence
  leaves the result empty (\<open>segmentClauses_fallback\<close> below); its error then leaves
  \<open>segmentClauses\<close>.
\<close>

definition segmentClauses_or_error :: "env \<Rightarrow> string \<Rightarrow> js_error + raw_clause list" where
  "segmentClauses_or_error e text =
     (case sentence_tokenizer e text of
        Inr sentences \<Rightarrow> Inr (segmentClauses (\<lambda>t. sentences) text)
      | Inl err \<Rightarrow>
          let clauses = segmentClauses (\<lambda>t. []) text
          in if clauses = [] then Inl err else Inr clauses)"

definition process_clause :: "env \<Rightarrow> raw_clause \<Rightarrow> js_error + processed_clause" where
  \<comment> \<open>the function mapped over the raw clauses\<close>
  "process_clause e clause =
     (case classifyClause (compromise_entities e) (clause_text clause) of
        Inl err \<Rightarrow> Inl err
      | Inr classification \<Rightarrow>
          (case extractClauseTitle e (clause_text clause) of
             Inl err \<Rightarrow> Inl err
           | Inr title \<Rightarrow>
               let risk = analyzeClauseRisk (clause_text clause) (clause_type classification)
               in Inr \<lparr>c_position = position clause,
                       c_section_number = section_number clause,
                       c_title = title,
                       c_text = clause_text clause,
                       c_clause_type = clause_type classification,
                       c_confidence = confidence classification,
                       c_entities = entities classification,
                       c_word_count = word_count classification,
                       c_risk_level = risk_level risk,
                       c_risk_flags = flags risk,
                       c_requires_review = requires_review risk\<rparr>))"

fun map_clauses :: "env \<Rightarrow> raw_clause list \<Rightarrow> js_error + processed_clause list" where
  \<comment> \<open>\<open>rawClauses.map(...)\<close>: the first clause whose processing throws ends the map\<close>
  "map_clauses e [] = Inr []"
| "map_clauses e (clause # rest) =
     (case process_clause e clause of
        Inl err \<Rightarrow> Inl err
      | Inr processed \<Rightarrow>
          (case map_clauses e rest of
             Inl err \<Rightarrow> Inl err
           | Inr others \<Rightarrow> Inr (processed # others)))"

definition extractAndClassifyClauses :: "env \<Rightarrow> string \<Rightarrow> js_error + processed_clause list" where
  \<comment> \<open>the \<open>catch\<close> of the source logs the error and throws it again\<close>
  "extractAndClassifyClauses e text =
     (case segmentClauses_or_error e text of
        Inl err \<Rightarrow> Inl err
      | Inr rawClauses \<Rightarrow> map_clauses e rawClauses)"

section \<open>The job processor: \<open>contractQueue.process('extract-text')\<close>\<close>

text \<open>
  The database is the contract row and the job row that the job's payload names, and the
  table of clauses. Time stamps are left out.
\<close>

record job_data =
  contractId :: nat
  filePath :: string
  fileType :: string
  userId :: nat
  jobId :: nat

record summary =
  success :: bool
  textLength :: nat
  summary_pages :: nat
  summary_wordCount :: nat
  clauseCount :: nat

record clause_row =
  row_contract_id :: nat
  row_clause :: processed_clause
  row_embedding :: string

record db =
  contract_status :: string
  contract_extracted_text :: "string option"
  contract_metadata :: "metadata option"
  job_status :: string
  job_error :: "string option"
  job_result :: "summary option"
  clause_rows :: "clause_row list"

definition attempt :: "env \<Rightarrow> nat \<Rightarrow> nat \<Rightarrow> processed_clause \<Rightarrow> clause_row option" where
  \<comment> \<open>the body of the inner \<open>try\<close> for the \<open>k\<close>-th clause: the row it inserts, or \<open>None\<close> when
     the embedding or the insert throws and the \<open>catch\<close> logs it\<close>
  "attempt e cid k clause =
     (case generateEmbedding e k (c_text clause) of
        Inl err \<Rightarrow> None
      | Inr embedding \<Rightarrow>
          (case query_error e (InsertClause k) of
             Some err \<Rightarrow> None
           | None \<Rightarrow>
               Some \<lparr>row_contract_id = cid, row_clause = clause,
                     row_embedding = formatEmbeddingForDB embedding\<rparr>))"

fun clause_loop :: "env \<Rightarrow> nat \<Rightarrow> processed_clause list \<Rightarrow> nat \<Rightarrow> db \<Rightarrow> db" where
  \<comment> \<open>\<open>for (const clause of clauses)\<close>; \<open>k\<close> counts the clauses gone through\<close>
  "clause_loop e cid [] k d = d"
| "clause_loop e cid (clause # rest) k d =
     clause_loop e cid rest (k + 1)
       (case attempt e cid k clause of
          None \<Rightarrow> d
        | Some row \<Rightarrow> d\<lparr>clause_rows := clause_rows d @ [row]\<rparr>)"

definition run_job :: "env \<Rightarrow> job_data \<Rightarrow> db \<Rightarrow> db \<times> (js_error + summary)" where
  \<comment> \<open>the outer \<open>try\<close> block: the database as it is when the block is left, and the error
     thrown or the summary returned (the returned object repeats the figures of the
     summary); \<open>getFileSize\<close>, which catches its own errors and whose result is not used, is
     left out\<close>
  "run_job e job d0 =
     (case query_error e JobProcessing of
        Some err \<Rightarrow> (d0, Inl err)
      | None \<Rightarrow>
          let d1 = d0\<lparr>job_status := ''processing''\<rparr>
          in (case extractText e (filePath job) (fileType job) of
                Inl err \<Rightarrow> (d1, Inl err)
              | Inr extraction \<Rightarrow>
                  (case query_error e ContractExtracted of
                     Some err \<Rightarrow> (d1, Inl err)
                   | None \<Rightarrow>
                       let d2 = d1\<lparr>contract_extracted_text := Some (ex_text extraction),
                                    contract_metadata := Some (ex_metadata extraction),
                                    contract_status := ''processing''\<rparr>
                       in (case extractAndClassifyClauses e (ex_text extraction) of
                             Inl err \<Rightarrow> (d2, Inl err)
                           | Inr clauses \<Rightarrow>
                               let d3 = clause_loop e (contractId job) clauses 0 d2
                               in (case query_error e ContractAnalyzed of
                                     Some err \<Rightarrow> (d3, Inl err)
                                   | None \<Rightarrow>
                                       let d4 = d3\<lparr>contract_status := ''analyzed''\<rparr>;
                                           result =
                                             \<lparr>success = True,
                                              textLength = length (ex_text extraction),
                                              summary_pages = pages (ex_metadata extraction),
                                              summary_wordCount = wordCount (ex_metadata extraction),
                                              clauseCount = length clauses\<rparr>
                                       in (case query_error e JobCompleted of
                                             Some err \<Rightarrow> (d4, Inl err)
                                           | None \<Rightarrow>
                                               (d4\<lparr>job_status := ''completed'',
                                                   job_result := Some result\<rparr>,
                                                Inr result)))))))"

definition process :: "env \<Rightarrow> job_data \<Rightarrow> db \<Rightarrow> db \<times> (js_error + summary)" where
  \<comment> \<open>the handler: the \<open>try\<close> block, and on an error the \<open>catch\<close> block, which marks the
     contract and the job as failed and throws the error again\<close>
  "process e job d0 =
     (case run_job e job d0 of
        (d, Inr result) \<Rightarrow> (d, Inr result)
      | (d, Inl error) \<Rightarrow>
          (case query_error e ContractFailed of
             Some err \<Rightarrow> (d, Inl err)
           | None \<Rightarrow>
               let d' = d\<lparr>contract_status := ''failed''\<rparr>
               in (case query_error e JobFailed of
                     Some err \<Rightarrow> (d', Inl err)
                   | None \<Rightarrow>
                       (d'\<lparr>job_status := ''failed'', job_error := Some (error_message error)\<rparr>,
                        Inl error))))"

section \<open>A concrete run\<close>

text \<open>
  An environment to run the job processor in: a PDF file of ten numbered sections, a
  tokenizer, an entity extraction and a title extraction that return, an embedding model
  that throws for the fourth clause, and a database that never fails.
  \<open>extname_of\<close> stands for \<open>path.extname\<close> on a file name that has no directory part.
\<close>

definition extname_of :: "string \<Rightarrow> string" where
  "extname_of path =
     (if CHR ''.'' \<in> set path then CHR ''.'' # rev (takeWhile (\<lambda>c. c \<noteq> CHR ''.'') (rev path))
      else [])"

definition demo_text :: string where
  "demo_text =
     ''SERVICE AGREEMENT'' @ [LF] @
     ''1. The parties keep all information confidential.'' @ [LF] @
     ''2. Either party may terminate this agreement.'' @ [LF] @
     ''3. The fee is paid within thirty days.'' @ [LF] @
     ''4. Liability is limited to the fees paid.'' @ [LF] @
     ''5. Each party owns its own trademarks.'' @ [LF] @
     ''6. The venue is the seat of the provider.'' @ [LF] @
     ''7. The provider gives no guarantee.'' @ [LF] @
     ''8. No transfer without written consent.'' @ [LF] @
     ''9. This is the entire agreement.'' @ [LF] @
     ''10. A provision held unenforceable is severed.''"

definition demo_env :: env where
  "demo_env =
     \<lparr>path_extname = extname_of,
      pdf_parse = (\<lambda>path. Inr (demo_text, 1)),
      mammoth_extractRawText = (\<lambda>path. Inl (Error ''not a Word file'')),
      sentence_tokenizer = (\<lambda>t. Inr (whole_text t)),
      compromise_entities = no_entities,
      extractClauseTitle = (\<lambda>t. Inr None),
      generateEmbedding =
        (\<lambda>k t. if k = 3 then Inl (Error ''model failure'') else Inr [Dec False [1, 2, 5] 0]),
      query_error = (\<lambda>st. None)\<rparr>"

definition demo_job :: job_data where
  "demo_job = \<lparr>contractId = 1, filePath = ''contract.pdf'', fileType = ''application/pdf'',
     userId = 1, jobId = 1\<rparr>"

definition demo_job_txt :: job_data where
  "demo_job_txt = \<lparr>contractId = 1, filePath = ''contract.txt'', fileType = ''text/plain'',
     userId = 1, jobId = 1\<rparr>"

definition demo_db :: db where
  "demo_db = \<lparr>contract_status = ''uploaded'', contract_extracted_text = None,
     contract_metadata = None, job_status = ''pending'', job_error = None, job_result = None,
     clause_rows = []\<rparr>"

definition demo_extraction :: extraction where
  "demo_extraction =
     \<lparr>ex_text = demo_text,
      ex_metadata = \<lparr>pages = 1, characterCount = 431, wordCount = 73\<rparr>\<rparr>"

section \<open>What a run leaves in the table of clauses\<close>

definition attempts :: "env \<Rightarrow> nat \<Rightarrow> processed_clause list \<Rightarrow> clause_row option list" where
  \<comment> \<open>the outcome of the inner \<open>try\<close> for each clause, in order\<close>
  "attempts e cid clauses = map (\<lambda>(k, clause). attempt e cid k clause) (enumerate 0 clauses)"

definition persisted_rows :: "env \<Rightarrow> nat \<Rightarrow> processed_clause list \<Rightarrow> clause_row list" where
  \<comment> \<open>the rows of the clauses whose embedding and insert both succeeded\<close>
  "persisted_rows e cid clauses = List.map_filter (\<lambda>r. r) (attempts e cid clauses)"

definition embedding_failures :: "env \<Rightarrow> processed_clause list \<Rightarrow> (nat \<times> processed_clause) list" where
  \<comment> \<open>the clauses, with their index, for which \<open>generateEmbedding\<close> throws\<close>
  "embedding_failures e clauses =
     filter (\<lambda>(k, clause). isl (generateEmbedding e k (c_text clause))) (enumerate 0 clauses)"

section \<open>Properties of risk scoring\<close>

lemma riskIndicators_sources:
  "map source riskIndicators_high =
     [''unlimited liability'', ''sole discretion'', ''without notice'', ''automatic renewal'',
      ''perpetual'', ''irrevocable'', ''waive.*rights'', ''indemnify.*all'']"
  "map source riskIndicators_medium =
     [''may terminate'', ''at any time'', ''without cause'', ''exclusive'', ''binding'',
      ''non-refundable'']"
  by (simp_all add: riskIndicators_high_def riskIndicators_medium_def)

lemma high_loop_flags:
  "snd (high_loop text ps (lv, fl)) = fl @ map high_flag (filter (\<lambda>p. rx_test p text) ps)"
  by (induction ps arbitrary: lv fl) simp_all

lemma high_loop_level:
  "fst (high_loop text ps (lv, fl)) =
     (if \<exists>p \<in> set ps. rx_test p text then ''high'' else lv)"
proof (induction ps arbitrary: lv fl)
  case Nil
  show ?case by simp
next
  case (Cons p ps)
  show ?case
  proof (cases "rx_test p text")
    case True
    then show ?thesis using Cons.IH [of "''high''" "fl @ [high_flag p]"] by simp
  next
    case False
    then show ?thesis using Cons.IH [of lv fl] by simp
  qed
qed

lemma medium_loop_level:
  "fst (medium_loop text ps (lv, fl)) =
     (if \<exists>p \<in> set ps. rx_test p text then ''medium'' else lv)"
proof (induction ps arbitrary: lv fl)
  case Nil
  show ?case by simp
next
  case (Cons p ps)
  show ?case
  proof (cases "rx_test p text")
    case True
    then show ?thesis using Cons.IH [of "''medium''" "fl @ [medium_flag p]"] by simp
  next
    case False
    then show ?thesis using Cons.IH [of lv fl] by simp
  qed
qed



text \<open>
  When no high-risk pattern matches, the medium list decides: one severity-medium flag per
  matching medium pattern, and the level \<open>medium\<close> if there is one, \<open>low\<close> otherwise.
\<close>

lemma medium_loop_flags:
  "snd (medium_loop text ps (lv, fl)) = fl @ map medium_flag (filter (\<lambda>p. rx_test p text) ps)"
  by (induction ps arbitrary: lv fl) simp_all

lemma analyzeClauseRisk_no_high:
  assumes "\<not> (\<exists>p \<in> set riskIndicators_high. rx_test p text)"
  shows "flags (analyzeClauseRisk text clauseType) =
           map medium_flag (filter (\<lambda>p. rx_test p text) riskIndicators_medium)"
    and "risk_level (analyzeClauseRisk text clauseType) =
           (if \<exists>p \<in> set riskIndicators_medium. rx_test p text then ''medium'' else ''low'')"
proof -
  have f: "filter (\<lambda>p. rx_test p text) riskIndicators_high = []"
    using assms by (simp add: filter_empty_conv)
  have st: "high_loop text riskIndicators_high (''low'', []) = (''low'', [])"
    using assms f
    by (simp add: prod_eq_iff high_loop_level high_loop_flags)
  show "flags (analyzeClauseRisk text clauseType) =
           map medium_flag (filter (\<lambda>p. rx_test p text) riskIndicators_medium)"
    by (simp add: analyzeClauseRisk_def Let_def st medium_loop_flags)
  show "risk_level (analyzeClauseRisk text clauseType) =
           (if \<exists>p \<in> set riskIndicators_medium. rx_test p text then ''medium'' else ''low'')"
    by (simp add: analyzeClauseRisk_def Let_def st medium_loop_level)
qed

text \<open>
  C7. For every clause text and clause type, \<open>requires_review\<close> is true exactly when the
  returned risk level is not \<open>low\<close>.
\<close>

theorem requires_review_iff_not_low:
  "requires_review (analyzeClauseRisk text clauseType) =
     (risk_level (analyzeClauseRisk text clauseType) \<noteq> ''low'')"
  by (simp add: analyzeClauseRisk_def Let_def)
section \<open>Properties of classification\<close>

lemma lower_char_table:
  "\<forall>c. lower_char c = (case map_of (zip upper_chars lower_chars) c of Some d \<Rightarrow> d | None \<Rightarrow> c)"
  by code_simp

lemma CLAUSE_PATTERNS_sources:
  "map (\<lambda>(type, patterns). (type, map source patterns)) CLAUSE_PATTERNS =
    [(''confidentiality'',
       [''confidential(ity)?'', ''non-disclosure'', ''proprietary information'', ''trade secret'',
        ''sensitive information'']),
     (''termination'',
       [''terminat(e|ion)'', ''cancel(lation)?'', ''end of (the )?agreement'', ''notice period'',
        ''expir(e|ation)'']),
     (''liability'',
       [''liabilit(y|ies)'', ''indemnif(y|ication)'', ''damages'', ''limitation of liability'',
        ''hold harmless'']),
     (''payment'',
       [''payment'', ''fee(s)?'', ''compensation'', ''invoice'', ''price'', ''cost'']),
     (''intellectual_property'',
       [''intellectual property'', ''copyright'', ''patent'', ''trademark'', ''ownership'',
        ''license'']),
     (''governing_law'',
       [''governing law'', ''jurisdiction'', ''applicable law'', ''venue'', ''dispute resolution'']),
     (''warranty'',
       [''warrant(y|ies)'', ''representation'', ''guarantee'', ''assurance'']),
     (''force_majeure'',
       [''force majeure'', ''act of god'', ''unforeseeable'', ''beyond.*control'']),
     (''assignment'',
       [''assignment'', ''transfer'', ''successor'', ''assign.*rights'']),
     (''amendment'',
       [''amendment'', ''modification'', ''change.*agreement'', ''written consent'']),
     (''entire_agreement'',
       [''entire agreement'', ''complete agreement'', ''supersede'', ''prior agreement'']),
     (''severability'',
       [''severabilit(y)?'', ''invalid.*provision'', ''unenforceable''])]"
  by (simp add: CLAUSE_PATTERNS_def)

lemma score_loop_eq:
  "score_loop text ps n = n + length (filter (\<lambda>p. rx_test p text) ps)"
  by (induction ps arbitrary: n) simp_all

lemma scores_of_eq:
  "scores_of text =
     map (\<lambda>(type, patterns). (type, length (filter (\<lambda>p. rx_test p text) patterns))) CLAUSE_PATTERNS"
  by (simp add: scores_of_def score_loop_eq)

lemma foldl_plus_sum_list: "foldl (+) (a::nat) xs = a + sum_list xs"
  by (induction xs arbitrary: a) simp_all

lemma scores_total: "foldl (+) 0 (map snd (scores_of text)) = total_matches text"
proof -
  have "map snd (scores_of text) =
      map (\<lambda>(type, patterns). length (filter (\<lambda>p. rx_test p text) patterns)) CLAUSE_PATTERNS"
    by (simp add: scores_of_eq case_prod_unfold)
  then show ?thesis by (simp add: foldl_plus_sum_list total_matches_def)
qed

lemma CLAUSE_PATTERNS_keys:
  "map fst CLAUSE_PATTERNS =
     [''confidentiality'', ''termination'', ''liability'', ''payment'', ''intellectual_property'',
      ''governing_law'', ''warranty'', ''force_majeure'', ''assignment'', ''amendment'',
      ''entire_agreement'', ''severability'']"
  by (simp add: CLAUSE_PATTERNS_def)

lemma CLAUSE_PATTERNS_distinct: "distinct (map fst CLAUSE_PATTERNS)"
  unfolding CLAUSE_PATTERNS_keys by simp

lemma scores_member:
  assumes "(t, m) \<in> set (scores_of text)"
  shows "score_for text t = m" and "t \<in> set (map fst CLAUSE_PATTERNS)" and "m \<le> total_matches text"
proof -
  from assms obtain ps where ps: "(t, ps) \<in> set CLAUSE_PATTERNS"
    and m: "m = length (filter (\<lambda>p. rx_test p text) ps)"
    by (auto simp: scores_of_eq)
  from ps have "map_of CLAUSE_PATTERNS t = Some ps"
    using CLAUSE_PATTERNS_distinct by simp
  then show "score_for text t = m" by (simp add: score_for_def m)
  from ps show "t \<in> set (map fst CLAUSE_PATTERNS)" by force
  have "m \<in> set (map (\<lambda>(type, patterns). length (filter (\<lambda>p. rx_test p text) patterns)) CLAUSE_PATTERNS)"
    using ps m by force
  then show "m \<le> total_matches text"
    unfolding total_matches_def by (rule member_le_sum_list) simp
qed

lemma score_for_bound:
  "\<exists>m. (t, m) \<in> set (scores_of text) \<and> score_for text t = m \<or> score_for text t = 0"
proof (cases "map_of CLAUSE_PATTERNS t")
  case None
  then show ?thesis by (simp add: score_for_def)
next
  case (Some ps)
  then have "(t, ps) \<in> set CLAUSE_PATTERNS" by (rule map_of_SomeD)
  then have "(t, length (filter (\<lambda>p. rx_test p text) ps)) \<in> set (scores_of text)"
    by (force simp: scores_of_eq)
  then show ?thesis using Some by (auto simp: score_for_def)
qed

lemma max_loop_cases:
  assumes "max_loop xs (m0, t0) = (m, t)"
  shows "(m = m0 \<and> t = t0 \<or> (t, m) \<in> set xs \<and> m0 < m) \<and> m0 \<le> m \<and> (\<forall>(t', s) \<in> set xs. s \<le> m)"
  using assms
proof (induction xs arbitrary: m0 t0)
  case Nil
  then show ?case by simp
next
  case (Cons x xs)
  obtain type score where x: "x = (type, score)" by (cases x)
  show ?case
  proof (cases "score > m0")
    case True
    with Cons.prems x have "max_loop xs (score, type) = (m, t)" by simp
    from Cons.IH [OF this] True x show ?thesis by auto
  next
    case False
    with Cons.prems x have "max_loop xs (m0, t0) = (m, t)" by simp
    from Cons.IH [OF this] False x show ?thesis by auto
  qed
qed

lemma total_zero_iff:
  "total_matches text = 0 \<longleftrightarrow>
     (\<forall>(type, patterns) \<in> set CLAUSE_PATTERNS. \<forall>p \<in> set patterns. \<not> rx_test p text)"
  by (auto simp: total_matches_def filter_empty_conv)

lemma classifyClause_throws:
  "compromise text = Inl err \<Longrightarrow> classifyClause compromise text = Inl err"
  by (simp add: classifyClause_def)

text \<open>
  C5. For every text on which the entity extraction of the library returns,
  \<open>classifyClause\<close> returns one of the twelve declared types or \<open>general\<close>, and a confidence
  between 0 and 1. When no indicator pattern of any type matches, the confidence is exactly
  one half (and the type is \<open>general\<close>); otherwise it is the score of the returned type,
  which is the highest score, divided by the sum of the scores of all types, capped at 1.
  (When the entity extraction throws, so does \<open>classifyClause\<close>: \<open>classifyClause_throws\<close>.)
\<close>

theorem classifyClause_result:
  assumes "compromise text = Inr found"
  shows "\<exists>c. classifyClause compromise text = Inr c
       \<and> entities c = found
       \<and> clause_type c \<in> set (map fst CLAUSE_PATTERNS) \<union> {''general''}
       \<and> 0 \<le> confidence c \<and> confidence c \<le> 1
       \<and> (total_matches text = 0 \<longrightarrow> confidence c = 1 / 2 \<and> clause_type c = ''general'')
       \<and> (total_matches text > 0 \<longrightarrow>
            confidence c = min (real (score_for text (clause_type c)) / real (total_matches text)) 1
            \<and> (\<forall>type. score_for text type \<le> score_for text (clause_type c)))"
proof -
  obtain m t where mt: "max_loop (scores_of text) (0, ''general'') = (m, t)"
    by (cases "max_loop (scores_of text) (0, ''general'')")
  note cases = max_loop_cases [OF mt]
  have r: "classifyClause compromise text =
      Inr \<lparr>clause_type = t,
       confidence = min (if total_matches text > 0 then real m / real (total_matches text) else 1 / 2) 1,
       entities = found,
       word_count = length (split_re match_spaces [] text)\<rparr>"
    by (simp add: classifyClause_def assms Let_def mt scores_total)
  show ?thesis
  proof (cases "total_matches text = 0")
    case True
    have "m = 0"
    proof (rule ccontr)
      assume "m \<noteq> 0"
      with cases have "(t, m) \<in> set (scores_of text)" by auto
      from scores_member(3) [OF this] True \<open>m \<noteq> 0\<close> show False by simp
    qed
    with cases have "t = ''general''" by auto
    with True show ?thesis by (simp add: r)
  next
    case False
    then have pos: "total_matches text > 0" by simp
    have "m \<noteq> 0"
    proof
      assume "m = 0"
      with cases have "\<forall>(t', s) \<in> set (scores_of text). s = 0" by auto
      then have "\<forall>s \<in> set (map snd (scores_of text)). s = 0" by auto
      then have z: "sum_list (map snd (scores_of text)) = 0" by simp
      have "total_matches text = sum_list (map snd (scores_of text))"
        using scores_total [of "text"] by (simp only: foldl_plus_sum_list add_0)
      with z have "total_matches text = 0" by (simp only:)
      with pos show False by simp
    qed
    with cases have mem: "(t, m) \<in> set (scores_of text)" by auto
    note sm = scores_member [OF mem]
    have le: "real m / real (total_matches text) \<le> 1"
      using sm(3) pos by simp
    have mx: "score_for text type \<le> m" for type
      using score_for_bound [of type "text"] cases by auto
    show ?thesis
      using pos sm le mx by (simp add: r)
  qed
qed

theorem classifyClause_result_witness:
  "no_entities ''nothing'' = Inr \<lparr>dates = [], money = [], organizations = [], people = []\<rparr>
   \<and> total_matches ''nothing'' = 0
   \<and> (\<exists>c. classifyClause no_entities ''nothing'' = Inr c
         \<and> confidence c = 1 / 2 \<and> clause_type c = ''general'')
   \<and> no_entities ''terminate, notice period, payment'' =
       Inr \<lparr>dates = [], money = [], organizations = [], people = []\<rparr>
   \<and> total_matches ''terminate, notice period, payment'' > 0
   \<and> (\<exists>c. classifyClause no_entities ''terminate, notice period, payment'' = Inr c
         \<and> clause_type c = ''termination'' \<and> confidence c = 2 / 3)"
proof -
  have n: "no_entities t = Inr \<lparr>dates = [], money = [], organizations = [], people = []\<rparr>" for t
    by (simp add: no_entities_def)
  have a: "total_matches ''nothing'' = 0"
    by code_simp
  have b: "total_matches ''terminate, notice period, payment'' = 3"
    by code_simp
  have s: "max_loop (scores_of ''terminate, notice period, payment'') (0, ''general'') = (2, ''termination'')"
    by code_simp
  have d: "score_for ''terminate, notice period, payment'' ''termination'' = 2"
    by code_simp
  obtain c1 where c1: "classifyClause no_entities ''nothing'' = Inr c1"
    "total_matches ''nothing'' = 0 \<longrightarrow> confidence c1 = 1 / 2 \<and> clause_type c1 = ''general''"
    using classifyClause_result [of no_entities "''nothing''", OF n] by (elim exE conjE) (rule that)
  obtain c2 where c2: "classifyClause no_entities ''terminate, notice period, payment'' = Inr c2"
    "0 < total_matches ''terminate, notice period, payment'' \<longrightarrow>
       confidence c2 =
         min (real (score_for ''terminate, notice period, payment'' (clause_type c2)) /
              real (total_matches ''terminate, notice period, payment'')) 1
       \<and> (\<forall>type. score_for ''terminate, notice period, payment'' type
             \<le> score_for ''terminate, notice period, payment'' (clause_type c2))"
    using classifyClause_result [of no_entities "''terminate, notice period, payment''", OF n]
    by (elim exE conjE) (rule that)
  have t2: "clause_type c2 = ''termination''"
    using c2(1) by (auto simp add: classifyClause_def n Let_def s)
  have e: "confidence c2 = 2 / 3"
    using c2(2) unfolding t2 d b by simp
  have f: "confidence c1 = 1 / 2 \<and> clause_type c1 = ''general''"
    using c1(2) a by blast
  have p: "0 < total_matches ''terminate, notice period, payment''"
    by (simp add: b)
  show ?thesis
    using n a p c1(1) c2(1) f t2 e by blast
qed

section \<open>Properties of segmentation\<close>

text \<open>
  Each of the three patterns consumes at least one character where it matches, so that
  \<open>split_re\<close> never passes over a match of theirs.
\<close>

lemma match_spaces_consumes:
  "match_spaces s = Some (caps, rest) \<Longrightarrow> length rest < length s"
  using length_dropWhile_le [of is_space "tl s"]
  by (cases s) (auto simp: match_spaces_def split: if_splits)

lemma match_blank_consumes:
  "match_blank s = Some (caps, rest) \<Longrightarrow> length rest < length s"
  by (cases s) (auto simp: match_blank_def Let_def split: if_splits)

lemma match_numbered_consumes:
  assumes "match_numbered s = Some (caps, rest)"
  shows "length rest < length s"
proof (cases s)
  case Nil
  with assms show ?thesis by (simp add: match_numbered_def)
next
  case (Cons c r)
  define r2 where "r2 = dropWhile is_digit (dropWhile is_space r)"
  have l2: "length r2 \<le> length r"
    using length_dropWhile_le [of is_digit "dropWhile is_space r"] length_dropWhile_le [of is_space r]
    by (simp add: r2_def)
  show ?thesis
  proof (cases r2)
    case Nil
    with assms Cons show ?thesis
      by (simp add: match_numbered_def Let_def r2_def [symmetric] split: if_splits)
  next
    case r2: (Cons dot r3)
    define r4 where "r4 = dropWhile is_digit r3"
    define r5 where "r5 = (if takeWhile is_digit r3 = [] then r3
       else if r4 \<noteq> [] \<and> hd r4 = CHR ''.'' then tl r4 else r4)"
    have "length r4 \<le> length r3"
      by (simp add: r4_def length_dropWhile_le)
    then have l5: "length r5 \<le> length r3"
      by (auto simp: r5_def)
    have "rest = dropWhile is_space r5"
      using assms Cons r2
      by (simp add: match_numbered_def Let_def r2_def [symmetric] r4_def [symmetric] r5_def
          split: if_splits)
    then have "length rest \<le> length r5"
      by (simp add: length_dropWhile_le)
    with l5 l2 r2 Cons show ?thesis by simp
  qed
qed

declare numbered_loop.simps [simp del] sentence_loop.simps [simp del]

lemma paragraph_loop_sorted:
  "sorted_wrt (<) (map position cl) \<Longrightarrow> (\<forall>c \<in> set cl. position c < index) \<Longrightarrow>
   sorted_wrt (<) (map position (paragraph_loop ps index cl))"
proof (induction ps arbitrary: index cl)
  case Nil
  then show ?case by simp
next
  case (Cons para rest)
  let ?c = "\<lparr>section_number = None, clause_text = trim para, position = index\<rparr>"
  show ?case
  proof (cases "length (trim para) > 50")
    case True
    have "sorted_wrt (<) (map position (cl @ [?c]))"
      using Cons.prems by (simp add: sorted_wrt_append)
    moreover have "\<forall>c \<in> set (cl @ [?c]). position c < index + 1"
      using Cons.prems by auto
    ultimately have "sorted_wrt (<) (map position (paragraph_loop rest (index + 1) (cl @ [?c])))"
      by (rule Cons.IH)
    with True show ?thesis by (simp add: Let_def)
  next
    case False
    have "\<forall>c \<in> set cl. position c < index + 1"
      using Cons.prems by auto
    with Cons.prems(1) have "sorted_wrt (<) (map position (paragraph_loop rest (index + 1) cl))"
      by (rule Cons.IH)
    with False show ?thesis by (simp add: Let_def)
  qed
qed

lemma numbered_loop_sorted:
  "sorted_wrt (<) (map position cl) \<Longrightarrow> (\<forall>c \<in> set cl. position c < i div 2) \<Longrightarrow>
   sorted_wrt (<) (map position (numbered_loop ps i cl))"
proof (induction ps i cl rule: numbered_loop.induct)
  case (1 ps i cl)
  show ?case
  proof (cases "i < length ps")
    case False
    with "1.prems" show ?thesis by (simp add: numbered_loop.simps [of ps i cl])
  next
    case True
    define sectionText where "sectionText = (if i + 1 < length ps then ps ! (i + 1) else [])"
    define cl' where "cl' = (if sectionText \<noteq> [] \<and> length (trim sectionText) > 20
              then cl @ [\<lparr>section_number = Some (ps ! i),
                                clause_text = trim sectionText, position = i div 2\<rparr>]
              else cl)"
    have eq: "numbered_loop ps i cl = numbered_loop ps (i + 2) cl'"
      using True by (simp add: numbered_loop.simps [of ps i cl] Let_def cl'_def sectionText_def)
    have s: "sorted_wrt (<) (map position cl')"
      using "1.prems" by (simp add: cl'_def sorted_wrt_append)
    have b: "\<forall>c \<in> set cl'. position c < (i + 2) div 2"
      using "1.prems" by (auto simp: cl'_def)
    have "sorted_wrt (<) (map position (numbered_loop ps (i + 2) cl'))"
      using "1.IH" [OF True refl refl] s b
      unfolding cl'_def sectionText_def by simp
    then show ?thesis by (simp add: eq)
  qed
qed

lemma sentence_loop_sorted:
  "sorted_wrt (<) (map position cl) \<Longrightarrow> (\<forall>c \<in> set cl. position c < i div sentencesPerClause) \<Longrightarrow>
   sorted_wrt (<) (map position (sentence_loop ss i cl))"
proof (induction ss i cl rule: sentence_loop.induct)
  case (1 ss i cl)
  show ?case
  proof (cases "i < length ss")
    case False
    with "1.prems" show ?thesis by (simp add: sentence_loop.simps [of ss i cl])
  next
    case True
    define clauseText where "clauseText = join '' '' (take sentencesPerClause (drop i ss))"
    define cl' where "cl' = (if length (trim clauseText) > 50
              then cl @ [\<lparr>section_number = None, clause_text = trim clauseText,
                                position = i div sentencesPerClause\<rparr>]
              else cl)"
    have eq: "sentence_loop ss i cl = sentence_loop ss (i + sentencesPerClause) cl'"
      using True by (simp add: sentence_loop.simps [of ss i cl] Let_def cl'_def clauseText_def)
    have s: "sorted_wrt (<) (map position cl')"
      using "1.prems" by (simp add: cl'_def sorted_wrt_append)
    have b: "\<forall>c \<in> set cl'. position c < (i + sentencesPerClause) div sentencesPerClause"
      using "1.prems" by (auto simp: cl'_def sentencesPerClause_def)
    have "sorted_wrt (<) (map position (sentence_loop ss (i + sentencesPerClause) cl'))"
      using "1.IH" [OF True refl] s b
      unfolding cl'_def clauseText_def by simp
    then show ?thesis by (simp add: eq)
  qed
qed

lemma length_trim_le: "length (trim s) \<le> length s"
proof -
  have "length (trim s) = length (dropWhile is_space (rev (dropWhile is_space s)))"
    unfolding trim_def by simp
  also have "\<dots> \<le> length (rev (dropWhile is_space s))" by (rule length_dropWhile_le)
  also have "\<dots> \<le> length s" by (simp add: length_dropWhile_le)
  finally show ?thesis .
qed

lemma join_short:
  assumes "\<forall>s \<in> set xs. length s \<le> 16" and "length xs \<le> 3"
  shows "length (join '' '' xs) \<le> 50"
proof -
  consider "xs = []" | a where "xs = [a]" | a b where "xs = [a, b]" | a b c where "xs = [a, b, c]"
  proof (cases xs)
    case Nil then show ?thesis using that by simp
  next
    case (Cons a r1)
    then show ?thesis using that assms(2)
      by (cases r1; cases "tl r1"; cases "tl (tl r1)") auto
  qed
  then show ?thesis using assms(1) by cases auto
qed

lemma sentence_loop_short:
  assumes "\<forall>s \<in> set ss. length s \<le> 16"
  shows "sentence_loop ss i cl = cl"
  using assms
proof (induction ss i cl rule: sentence_loop.induct)
  case (1 ss i cl)
  show ?case
  proof (cases "i < length ss")
    case False
    then show ?thesis by (simp add: sentence_loop.simps [of ss i cl])
  next
    case True
    let ?t = "join '' '' (take sentencesPerClause (drop i ss))"
    have "\<forall>s \<in> set (take sentencesPerClause (drop i ss)). length s \<le> 16"
      using "1.prems" by (meson in_set_dropD in_set_takeD)
    then have "length ?t \<le> 50"
      by (rule join_short) (simp add: sentencesPerClause_def)
    then have short: "\<not> length (trim ?t) > 50"
      using length_trim_le [of ?t] by simp
    have "sentence_loop ss i cl = sentence_loop ss (i + sentencesPerClause) cl"
      using True short by (simp add: sentence_loop.simps [of ss i cl] Let_def)
    also have "\<dots> = cl"
      using "1.IH" [OF True refl] short "1.prems" by simp
    finally show ?thesis .
  qed
qed

text \<open>
  Whatever the tokenizer, as long as its sentences are no longer than 16 characters (those
  of a two-character text are not), the text \<open>hi\<close> gives no clause.
\<close>

lemma segmentClauses_short_text:
  assumes "\<forall>s \<in> set (tokenize ''hi''). length s \<le> 16"
  shows "segmentClauses tokenize ''hi'' = []"
proof -
  have "split_re match_numbered [] ''hi'' = [''hi'']" by code_simp
  moreover have "paragraph_loop (split_re match_blank [] ''hi'') 0 [] = []" by code_simp
  ultimately show ?thesis
    by (simp add: segmentClauses_def Let_def sentence_loop_short [OF assms])
qed

text \<open>
  C1, as amended. For every input text and whichever strategy produced them, the positions
  of the returned clauses are strictly increasing in output order. A position is the index
  of the section, paragraph or sentence group the clause came from, counted with the
  discarded ones: positions need not start at 0 nor be contiguous, and the result of a
  non-empty text can be empty.
\<close>

theorem segmentClauses_positions_increasing:
  "sorted_wrt (<) (map position (segmentClauses tokenize text))"
proof -
  have n: "sorted_wrt (<) (map position (numbered_loop ps 1 []))" for ps
    by (rule numbered_loop_sorted) simp_all
  have p: "sorted_wrt (<) (map position (paragraph_loop ps 0 []))" for ps
    by (rule paragraph_loop_sorted) simp_all
  have s: "sorted_wrt (<) (map position (sentence_loop ss 0 []))" for ss
    by (rule sentence_loop_sorted) simp_all
  show ?thesis
    using n p s by (simp add: segmentClauses_def Let_def)
qed

text \<open>
  C1, as stated, fails: a short text gives no clause, and a text whose first and third
  paragraphs are short gives the positions 1 and 3.
\<close>

theorem segmentClauses_counterexample:
  "segmentClauses whole_text ''hi'' = []
   \<and> map position (segmentClauses whole_text
         (''NDA'' @ [LF, LF] @
          ''The parties shall keep all proprietary information confidential.'' @ [LF, LF] @
          ''Signed'' @ [LF, LF] @
          ''Either party may terminate this agreement at any time without cause.'')) = [1, 3]"
  by code_simp

section \<open>Properties of \<open>cosineSimilarity\<close>\<close>

declare cosine_loop.simps [simp del]

lemma cosine_loop_sums:
  assumes "length e1 = length e2" and "i \<le> length e1"
  shows "cosine_loop e1 e2 i (d, n1, n2) =
     (d + (\<Sum>k = i..<length e1. e1 ! k * e2 ! k),
      n1 + (\<Sum>k = i..<length e1. e1 ! k * e1 ! k),
      n2 + (\<Sum>k = i..<length e1. e2 ! k * e2 ! k))"
  using assms
proof (induction e1 e2 i "(d, n1, n2)" arbitrary: d n1 n2 rule: cosine_loop.induct)
  case (1 e1 e2 i d n1 n2)
  show ?case
  proof (cases "i < length e1")
    case False
    then have "cosine_loop e1 e2 i (d, n1, n2) = (d, n1, n2)"
      by (subst cosine_loop.simps) simp
    moreover have "i = length e1" using False "1.prems" by simp
    ultimately show ?thesis by simp
  next
    case True
    have "cosine_loop e1 e2 i (d, n1, n2) =
        cosine_loop e1 e2 (i + 1) (d + e1 ! i * e2 ! i, n1 + e1 ! i * e1 ! i, n2 + e2 ! i * e2 ! i)"
      using True by (simp add: cosine_loop.simps [of e1 e2 i])
    also have "\<dots> = (d + e1 ! i * e2 ! i + (\<Sum>k = i + 1..<length e1. e1 ! k * e2 ! k),
        n1 + e1 ! i * e1 ! i + (\<Sum>k = i + 1..<length e1. e1 ! k * e1 ! k),
        n2 + e2 ! i * e2 ! i + (\<Sum>k = i + 1..<length e1. e2 ! k * e2 ! k))"
      using "1.hyps" [OF True] "1.prems" True by simp
    also have "\<dots> = (d + (\<Sum>k = i..<length e1. e1 ! k * e2 ! k),
        n1 + (\<Sum>k = i..<length e1. e1 ! k * e1 ! k),
        n2 + (\<Sum>k = i..<length e1. e2 ! k * e2 ! k))"
      using True by (simp add: sum.atLeast_Suc_lessThan add.assoc)
    finally show ?thesis .
  qed
qed

lemma sum_squares_nth: "(\<Sum>k = 0..<length v. v ! k * v ! k) = sum_list (map (\<lambda>x. x * x) (v :: real list))"
  by (simp add: sum_list_sum_nth)

lemma cosine_loop_norms:
  assumes "length e1 = length e2"
  shows "cosine_loop e1 e2 0 (0, 0, 0) =
     (\<Sum>k = 0..<length e1. e1 ! k * e2 ! k,
      sum_list (map (\<lambda>x. x * x) e1), sum_list (map (\<lambda>x. x * x) e2))"
  using cosine_loop_sums [OF assms, of 0 0 0 0] sum_squares_nth [of e1] sum_squares_nth [of e2] assms
  by simp

text \<open>
  C8. \<open>cosineSimilarity\<close> of two vectors of different lengths fails with the error
  \<open>Embeddings must have the same dimension\<close>; of two vectors of the same length, one of
  which has magnitude zero, it returns 0 and does not divide.
\<close>

theorem cosineSimilarity_guards:
  "(length embedding1 \<noteq> length embedding2 \<longrightarrow>
      cosineSimilarity embedding1 embedding2 = Inl (Error ''Embeddings must have the same dimension''))
   \<and> (length embedding1 = length embedding2 \<and>
        (sqrt (sum_list (map (\<lambda>x. x * x) embedding1)) = 0 \<or>
         sqrt (sum_list (map (\<lambda>x. x * x) embedding2)) = 0) \<longrightarrow>
      cosineSimilarity embedding1 embedding2 = Inr 0)"
proof (intro conjI impI)
  assume "length embedding1 \<noteq> length embedding2"
  then show "cosineSimilarity embedding1 embedding2 = Inl (Error ''Embeddings must have the same dimension'')"
    by (simp add: cosineSimilarity_def)
next
  assume a: "length embedding1 = length embedding2 \<and>
        (sqrt (sum_list (map (\<lambda>x. x * x) embedding1)) = 0 \<or>
         sqrt (sum_list (map (\<lambda>x. x * x) embedding2)) = 0)"
  then have len: "length embedding1 = length embedding2" by simp
  show "cosineSimilarity embedding1 embedding2 = Inr 0"
    using a by (auto simp add: cosineSimilarity_def cosine_loop_norms [OF len])
qed

theorem cosineSimilarity_guards_witness:
  "length [1 :: real] \<noteq> length [1, 2 :: real]
   \<and> cosineSimilarity [1] [1, 2] = Inl (Error ''Embeddings must have the same dimension'')
   \<and> length [0, 0 :: real] = length [3, 4 :: real]
   \<and> sqrt (sum_list (map (\<lambda>x. x * x) [0, 0])) = 0
   \<and> cosineSimilarity [0, 0] [3, 4] = Inr 0"
proof -
  have a: "length [1 :: real] \<noteq> length [1, 2 :: real]" by simp
  have b: "length [0, 0 :: real] = length [3, 4 :: real] \<and>
      (sqrt (sum_list (map (\<lambda>x. x * x) [0, 0 :: real])) = 0 \<or>
       sqrt (sum_list (map (\<lambda>x. x * x) [3, 4 :: real])) = 0)" by simp
  from a have "cosineSimilarity [1] [1, 2] = Inl (Error ''Embeddings must have the same dimension'')"
    using cosineSimilarity_guards [of "[1]" "[1, 2]"] by blast
  moreover from b have "cosineSimilarity [0, 0] [3, 4] = Inr 0"
    using cosineSimilarity_guards [of "[0, 0]" "[3, 4]"] by blast
  ultimately show ?thesis by simp
qed

lemma cosineSimilarity_example: "cosineSimilarity [3, 4] [3, 4] = Inr 1"
proof -
  have "sqrt 25 = 5" by (rule real_sqrt_unique) simp_all
  have c: "cosine_loop [3, 4] [3, 4] 0 (0, 0, 0) = (25, 25, 25)"
    by (simp add: cosine_loop.simps numeral_eq_Suc)
  show ?thesis
    using \<open>sqrt 25 = 5\<close> by (simp add: cosineSimilarity_def c)
qed

section \<open>Properties of the textual form of embeddings\<close>

declare digits_of.simps [simp del]

lemma digit_char_props:
  assumes "d < 10"
  shows "is_digit (digit_char d)" and "digit_val (digit_char d) = d"
    and "digit_char d \<noteq> CHR '',''" and "\<not> is_space (digit_char d)"
    and "digit_char d \<noteq> CHR ''-''" and "digit_char d \<noteq> CHR ''+''"
    and "digit_char d \<noteq> CHR ''I''"
proof -
  have "d \<in> {0, 1, 2, 3, 4, 5, 6, 7, 8, 9}" using assms by auto
  then show "is_digit (digit_char d)" and "digit_val (digit_char d) = d"
    and "digit_char d \<noteq> CHR '',''" and "\<not> is_space (digit_char d)"
    and "digit_char d \<noteq> CHR ''-''" and "digit_char d \<noteq> CHR ''+''"
    and "digit_char d \<noteq> CHR ''I''"
    by (auto simp: digit_char_def is_digit_def digit_val_def is_space_def)
qed

lemma digits_of_lt10: "\<forall>d \<in> set (digits_of m). d < 10"
proof (induction m rule: digits_of.induct)
  case (1 m)
  then show ?case by (subst digits_of.simps) auto
qed

lemma digits_of_nonempty: "digits_of m \<noteq> []"
  by (subst digits_of.simps) simp

lemma nat_of_digits_snoc: "nat_of_digits (ds @ [d]) = 10 * nat_of_digits ds + d"
  by (simp add: nat_of_digits_def)

lemma nat_of_digits_of: "nat_of_digits (digits_of m) = m"
proof (induction m rule: digits_of.induct)
  case (1 m)
  show ?case
  proof (cases "m < 10")
    case True
    then show ?thesis by (subst digits_of.simps) (simp add: nat_of_digits_def)
  next
    case False
    then have "digits_of m = digits_of (m div 10) @ [m mod 10]"
      by (subst digits_of.simps) simp
    then show ?thesis using 1 False by (simp add: nat_of_digits_snoc)
  qed
qed

lemma digit_chars:
  assumes "list_all (\<lambda>d. d < 10) ds"
  shows "\<forall>c \<in> set (map digit_char ds). is_digit c"
    and "map digit_val (map digit_char ds) = ds"
    and "CHR '','' \<notin> set (map digit_char ds)"
proof -
  have "\<forall>d \<in> set ds. is_digit (digit_char d) \<and> digit_val (digit_char d) = d \<and> digit_char d \<noteq> CHR '',''"
    using assms digit_char_props(1,2,3) by (simp add: list_all_iff)
  then show "\<forall>c \<in> set (map digit_char ds). is_digit c"
    and "map digit_val (map digit_char ds) = ds"
    and "CHR '','' \<notin> set (map digit_char ds)"
    by (auto intro: map_idI)
qed

lemma span_digits:
  assumes "\<forall>c \<in> set a. is_digit c" and "b = [] \<or> \<not> is_digit (hd b)"
  shows "takeWhile is_digit (a @ b) = a" and "dropWhile is_digit (a @ b) = b"
proof -
  have "takeWhile is_digit b = []" and "dropWhile is_digit b = b"
    using assms(2) by (cases b; simp)+
  then show "takeWhile is_digit (a @ b) = a" and "dropWhile is_digit (a @ b) = b"
    using assms(1) by (simp_all add: takeWhile_append2 dropWhile_append2)
qed

lemma mk_dec_canon:
  assumes "ds \<noteq> []" and "hd ds \<noteq> 0" and "last ds \<noteq> 0"
  shows "mk_dec neg (replicate a 0 @ ds @ replicate b 0) n = Dec neg ds (n - int a)"
proof -
  obtain d ds' where ds: "ds = d # ds'" using assms(1) by (cases ds) auto
  with assms(2) have d: "d \<noteq> 0" by simp
  have tw: "takeWhile (\<lambda>d. d = 0) (replicate a 0 @ ds @ replicate b 0) = replicate a (0::nat)"
    using d by (induction a) (simp_all add: ds)
  have dw: "dropWhile (\<lambda>d. d = 0) (replicate a 0 @ ds @ replicate b 0) = ds @ replicate b 0"
    using d by (induction a) (simp_all add: ds)
  have "rev (ds @ replicate b 0) = replicate b 0 @ rev ds" by simp
  moreover have "dropWhile (\<lambda>d. d = 0) (replicate b 0 @ rev ds) = rev ds"
  proof -
    have "rev ds \<noteq> []" using assms(1) by simp
    moreover have "hd (rev ds) \<noteq> 0" using assms(1,3) by (simp add: hd_rev)
    ultimately have "dropWhile (\<lambda>d. d = 0) (rev ds) = rev ds" by (cases "rev ds") auto
    then show ?thesis by (induction b) simp_all
  qed
  ultimately have bk: "rev (dropWhile (\<lambda>d. d = 0) (rev (ds @ replicate b 0))) = ds" by simp
  show ?thesis
    unfolding mk_dec_def Let_def tw dw bk using assms(1) by simp
qed

lemma parse_prefix:
  assumes "\<forall>c \<in> set ip. is_digit c" and "ip \<noteq> []"
  shows "dropWhile is_space ((if neg then ''-'' else []) @ ip @ rest) = (if neg then ''-'' else []) @ ip @ rest"
    and "read_sign ((if neg then ''-'' else []) @ ip @ rest) = (neg, ip @ rest)"
    and "take 8 (ip @ rest) \<noteq> ''Infinity''"
proof -
  obtain c ip' where ip: "ip = c # ip'" using assms(2) by (cases ip) auto
  with assms(1) have c: "is_digit c" by simp
  then have cs: "\<not> is_space c" "c \<noteq> CHR ''-''" "c \<noteq> CHR ''+''" "c \<noteq> CHR ''I''"
    by (auto simp: is_digit_def is_space_def)
  show "dropWhile is_space ((if neg then ''-'' else []) @ ip @ rest) = (if neg then ''-'' else []) @ ip @ rest"
    using cs by (simp add: ip is_space_def)
  show "read_sign ((if neg then ''-'' else []) @ ip @ rest) = (neg, ip @ rest)"
    using cs by (simp add: ip read_sign_def)
  show "take 8 (ip @ rest) \<noteq> ''Infinity''"
    using cs by (simp add: ip)
qed

lemma parseFloat_integer:
  assumes "\<forall>c \<in> set ip. is_digit c" and "ip \<noteq> []" and "ex = [] \<or> hd ex = CHR ''e''"
  shows "parseFloat ((if neg then ''-'' else []) @ ip @ ex) =
     mk_dec neg (map digit_val ip) (int (length ip) + read_exponent ex)"
proof -
  have nd: "ex = [] \<or> \<not> is_digit (hd ex)"
    using assms(3) by (auto simp: is_digit_def)
  have nodot: "\<not> (ex \<noteq> [] \<and> hd ex = CHR ''.'')"
    using assms(3) by auto
  show ?thesis
    unfolding parseFloat_def Let_def parse_prefix [OF assms(1,2)]
    using parse_prefix(3) [OF assms(1,2), of ex] span_digits [OF assms(1) nd] nodot assms(2)
    by auto
qed

lemma parseFloat_fraction:
  assumes "\<forall>c \<in> set ip. is_digit c" and "ip \<noteq> []" and "\<forall>c \<in> set fp. is_digit c"
    and "ex = [] \<or> hd ex = CHR ''e''"
  shows "parseFloat ((if neg then ''-'' else []) @ ip @ ''.'' @ fp @ ex) =
     mk_dec neg (map digit_val (ip @ fp)) (int (length ip) + read_exponent ex)"
proof -
  have nd: "ex = [] \<or> \<not> is_digit (hd ex)"
    using assms(4) by (auto simp: is_digit_def)
  have nd1: "''.'' @ fp @ ex = [] \<or> \<not> is_digit (hd (''.'' @ fp @ ex))"
    by (simp add: is_digit_def)
  show ?thesis
    unfolding parseFloat_def Let_def parse_prefix [OF assms(1,2)]
    using parse_prefix(3) [OF assms(1,2), of "''.'' @ fp @ ex"]
      span_digits [OF assms(1) nd1] span_digits [OF assms(3) nd] assms(2)
    by simp
qed

lemma read_exponent_digits:
  "read_exponent (''e'' @ (if b then ''-'' else ''+'') @ map digit_char (digits_of m)) =
     (if b then - int m else int m)"
proof -
  let ?D = "map digit_char (digits_of m)"
  have all: "list_all (\<lambda>d. d < 10) (digits_of m)"
    using digits_of_lt10 by (simp add: list_all_iff)
  have tw: "takeWhile is_digit ?D = ?D"
    using span_digits(1) [OF digit_chars(1) [OF all], of "[]"] by simp
  have ne: "?D \<noteq> []" using digits_of_nonempty by simp
  have v: "nat_of_digits (map digit_val ?D) = m"
    by (simp only: digit_chars(2) [OF all] nat_of_digits_of)
  have sgn: "read_sign ((if b then ''-'' else ''+'') @ ?D) = (b, ?D)"
    by (simp add: read_sign_def)
  show ?thesis
    using ne by (simp add: read_exponent_def Let_def sgn tw v del: map_map)
qed

lemma read_exponent_printed:
  "read_exponent (''e'' @ (if e < 0 then ''-'' else ''+'') @ map digit_char (digits_of (nat \<bar>e\<bar>))) = e"
  by (simp only: read_exponent_digits) simp

lemma digit_val_zero: "digit_val (CHR ''0'') = 0"
  by (simp add: digit_val_def)

lemma is_digit_zero: "is_digit (CHR ''0'')"
  by (simp add: is_digit_def)

lemma read_exponent_Nil: "read_exponent [] = 0"
  by (simp add: read_exponent_def)

lemma parseFloat_printed_Dec:
  assumes "wf_num (Dec neg ds n)"
  shows "parseFloat (num_to_string (Dec neg ds n)) = Dec neg ds n"
proof -
  from assms have ne: "ds \<noteq> []" and all: "list_all (\<lambda>d. d < 10) ds"
    and h: "hd ds \<noteq> 0" and l: "last ds \<noteq> 0"
    by (simp_all add: wf_num_def)
  define D where "D = map digit_char ds"
  define k where "k = int (length ds)"
  have Dd: "\<forall>c \<in> set D. is_digit c" and Dv: "map digit_val D = ds"
    unfolding D_def using digit_chars [OF all] by simp_all
  have Dne: "D \<noteq> []" and Dlen: "length D = length ds"
    using ne by (simp_all add: D_def)
  have kpos: "1 \<le> k" using ne by (cases ds) (simp_all add: k_def)
  note canon = mk_dec_canon [OF ne h l]
  define ex where
    "ex = ''e'' @ (if n - 1 < 0 then ''-'' else ''+'') @ map digit_char (digits_of (nat \<bar>n - 1\<bar>))"
  have exh: "ex = [] \<or> hd ex = CHR ''e''" by (simp add: ex_def)
  have exv: "read_exponent ex = n - 1" unfolding ex_def by (rule read_exponent_printed)
  have str_exp: "num_to_string (Dec neg ds n) =
      (if neg then ''-'' else []) @ (if k = 1 then D @ ex else take 1 D @ ''.'' @ drop 1 D @ ex)"
    if "21 < n \<or> n \<le> - 6"
    using that kpos by (auto simp: num_to_string_def Let_def D_def k_def ex_def)
  consider (int) "k \<le> n" "n \<le> 21"
    | (frac) "\<not> k \<le> n" "0 < n" "n \<le> 21"
    | (small) "\<not> k \<le> n" "- 6 < n" "n \<le> 0"
    | (exp1) "21 < n \<or> n \<le> - 6" "k = 1"
    | (expk) "21 < n \<or> n \<le> - 6" "k \<noteq> 1"
    using kpos by linarith
  then show ?thesis
  proof cases
    case int
    define m where "m = nat (n - k)"
    have str: "num_to_string (Dec neg ds n) =
        (if neg then ''-'' else []) @ (D @ replicate m (CHR ''0'')) @ []"
      using int by (simp add: num_to_string_def Let_def D_def k_def m_def)
    have dig: "\<forall>c \<in> set (D @ replicate m (CHR ''0'')). is_digit c"
      using Dd is_digit_zero by auto
    have "parseFloat (num_to_string (Dec neg ds n)) =
        mk_dec neg (map digit_val (D @ replicate m (CHR ''0'')))
          (int (length (D @ replicate m (CHR ''0''))) + read_exponent [])"
      unfolding str by (rule parseFloat_integer [OF dig]) (simp_all add: Dne)
    also have "\<dots> = mk_dec neg (replicate 0 0 @ ds @ replicate m 0) (k + int m)"
      by (simp add: Dv digit_val_zero read_exponent_Nil Dlen k_def)
    also have "\<dots> = Dec neg ds (k + int m - int 0)"
      by (rule canon)
    also have "k + int m - int 0 = n"
      using int by (simp add: m_def)
    finally show ?thesis .
  next
    case frac
    define m where "m = nat n"
    have m: "0 < m" "m < length ds" "int m = n"
      using frac by (simp_all add: m_def k_def)
    have str: "num_to_string (Dec neg ds n) =
        (if neg then ''-'' else []) @ take m D @ ''.'' @ drop m D @ []"
      using frac by (simp add: num_to_string_def Let_def D_def k_def m_def)
    have d1: "\<forall>c \<in> set (take m D). is_digit c"
      using Dd by (meson in_set_takeD)
    have d2: "\<forall>c \<in> set (drop m D). is_digit c"
      using Dd by (meson in_set_dropD)
    have tne: "take m D \<noteq> []"
      using m Dne by simp
    have "parseFloat (num_to_string (Dec neg ds n)) =
        mk_dec neg (map digit_val (take m D @ drop m D)) (int (length (take m D)) + read_exponent [])"
      unfolding str by (rule parseFloat_fraction [OF d1 tne d2]) simp
    also have "\<dots> = mk_dec neg (replicate 0 0 @ ds @ replicate 0 0) (int m)"
      using m by (simp add: Dv read_exponent_Nil Dlen min_def)
    also have "\<dots> = Dec neg ds (int m - int 0)"
      by (rule canon)
    also have "int m - int 0 = n"
      using m by simp
    finally show ?thesis .
  next
    case small
    define m where "m = nat (- n)"
    have str: "num_to_string (Dec neg ds n) =
        (if neg then ''-'' else []) @ ''0'' @ ''.'' @ (replicate m (CHR ''0'') @ D) @ []"
      using small by (simp add: num_to_string_def Let_def D_def k_def m_def)
    have d1: "\<forall>c \<in> set ''0''. is_digit c"
      by (simp add: is_digit_def)
    have d2: "\<forall>c \<in> set (replicate m (CHR ''0'') @ D). is_digit c"
      using Dd is_digit_zero by auto
    have "parseFloat (num_to_string (Dec neg ds n)) =
        mk_dec neg (map digit_val (''0'' @ replicate m (CHR ''0'') @ D)) (int (length ''0'') + read_exponent [])"
      unfolding str by (rule parseFloat_fraction [OF d1 _ d2]) simp_all
    also have "\<dots> = mk_dec neg (replicate (Suc m) 0 @ ds @ replicate 0 0) 1"
      by (simp add: Dv digit_val_zero read_exponent_Nil digit_val_def)
    also have "\<dots> = Dec neg ds (1 - int (Suc m))"
      by (rule canon)
    also have "1 - int (Suc m) = n"
      using small by (simp add: m_def)
    finally show ?thesis .
  next
    case exp1
    have str: "num_to_string (Dec neg ds n) = (if neg then ''-'' else []) @ D @ ex"
      using str_exp [OF exp1(1)] exp1(2) by simp
    have "parseFloat (num_to_string (Dec neg ds n)) =
        mk_dec neg (map digit_val D) (int (length D) + read_exponent ex)"
      unfolding str by (rule parseFloat_integer [OF Dd Dne exh])
    also have "\<dots> = mk_dec neg (replicate 0 0 @ ds @ replicate 0 0) (1 + (n - 1))"
      using exp1(2) by (simp add: Dv Dlen k_def exv)
    also have "\<dots> = Dec neg ds (1 + (n - 1) - int 0)"
      by (rule canon)
    finally show ?thesis by simp
  next
    case expk
    have str: "num_to_string (Dec neg ds n) =
        (if neg then ''-'' else []) @ take 1 D @ ''.'' @ drop 1 D @ ex"
      using str_exp [OF expk(1)] expk(2) by simp
    have d1: "\<forall>c \<in> set (take 1 D). is_digit c"
      using Dd by (meson in_set_takeD)
    have d2: "\<forall>c \<in> set (drop 1 D). is_digit c"
      using Dd by (meson in_set_dropD)
    have tne: "take 1 D \<noteq> []"
      using Dne by simp
    have "parseFloat (num_to_string (Dec neg ds n)) =
        mk_dec neg (map digit_val (take 1 D @ drop 1 D)) (int (length (take 1 D)) + read_exponent ex)"
      unfolding str by (rule parseFloat_fraction [OF d1 tne d2 exh])
    also have "\<dots> = mk_dec neg (replicate 0 0 @ ds @ replicate 0 0) (1 + (n - 1))"
    proof -
      have td: "take 1 D @ drop 1 D = D" by simp
      have lt: "length (take 1 D) = 1" using Dne by (cases D) simp_all
      show ?thesis by (simp only: td lt Dv exv) simp
    qed
    also have "\<dots> = Dec neg ds (1 + (n - 1) - int 0)"
      by (rule canon)
    finally show ?thesis by simp
  qed
qed

lemma parseFloat_printed:
  assumes "wf_num x"
  shows "parseFloat (num_to_string x) = x"
proof (cases x)
  case NaN
  then show ?thesis by (simp add: parseFloat_def num_to_string_def read_sign_def is_space_def is_digit_def)
next
  case PosInfinity
  then show ?thesis by (simp add: parseFloat_def num_to_string_def read_sign_def is_space_def)
next
  case NegInfinity
  then show ?thesis by (simp add: parseFloat_def num_to_string_def read_sign_def is_space_def)
next
  case Zero
  then show ?thesis
    by (simp add: parseFloat_def num_to_string_def read_sign_def is_space_def is_digit_def
        mk_dec_def digit_val_def read_exponent_def)
next
  case (Dec neg ds n)
  with assms show ?thesis by (simp only: parseFloat_printed_Dec)
qed

lemma num_to_string_no_comma:
  assumes "wf_num x"
  shows "CHR '','' \<notin> set (num_to_string x)"
proof (cases x)
  case (Dec neg ds n)
  with assms have all: "list_all (\<lambda>d. d < 10) ds" by (simp add: wf_num_def)
  have a: "CHR '','' \<notin> set (map digit_char ds)"
    by (rule digit_chars(3) [OF all])
  have "list_all (\<lambda>d. d < 10) (digits_of m)" for m
    using digits_of_lt10 by (simp add: list_all_iff)
  then have b: "CHR '','' \<notin> set (map digit_char (digits_of m))" for m
    by (rule digit_chars(3))
  have c: "CHR '','' \<notin> set (take j (map digit_char ds))" "CHR '','' \<notin> set (drop j (map digit_char ds))" for j
    using a by (meson in_set_takeD in_set_dropD)+
  show ?thesis
    unfolding Dec num_to_string_def Let_def using a b c
    by (auto simp del: set_map map_map take_map drop_map split: if_splits)
qed (simp_all add: num_to_string_def)

lemma split_char_piece:
  "sep \<notin> set x \<Longrightarrow> split_char sep acc (x @ rest) = split_char sep (rev x @ acc) rest"
  by (induction x arbitrary: acc) auto

lemma split_char_join:
  assumes "xs \<noteq> []" and "\<forall>x \<in> set xs. sep \<notin> set x"
  shows "split_char sep [] (join [sep] xs) = xs"
  using assms
proof (induction "[sep]" xs rule: join.induct)
  case 1
  then show ?case by simp
next
  case (2 x)
  then have "sep \<notin> set x" by simp
  from split_char_piece [OF this, of "[]" "[]"] show ?case by simp
next
  case (3 x y ys)
  then have x: "sep \<notin> set x" and rest: "split_char sep [] (join [sep] (y # ys)) = y # ys"
    by simp_all
  have "split_char sep [] (join [sep] (x # y # ys)) =
      split_char sep (rev x) (sep # join [sep] (y # ys))"
    using split_char_piece [OF x, of "[]" "sep # join [sep] (y # ys)"] by simp
  also have "\<dots> = x # y # ys"
    using rest by simp
  finally show ?case .
qed

lemma strip_brackets_wrapped: "strip_brackets (''['' @ j @ '']'') = j"
  by (simp add: strip_brackets_def)

lemma embedding_roundtrip:
  assumes "v \<noteq> []" and "\<forall>x \<in> set v. wf_num x"
  shows "parseEmbeddingFromDB (formatEmbeddingForDB v) = v"
proof -
  have nc: "\<forall>s \<in> set (map num_to_string v). CHR '','' \<notin> set s"
    using assms(2) num_to_string_no_comma by auto
  have ne: "map num_to_string v \<noteq> []"
    using assms(1) by simp
  have "split_char (CHR '','') [] (strip_brackets (formatEmbeddingForDB v)) = map num_to_string v"
    unfolding formatEmbeddingForDB_def strip_brackets_wrapped
    using split_char_join [OF ne nc] by simp
  then have "parseEmbeddingFromDB (formatEmbeddingForDB v) = map parseFloat (map num_to_string v)"
    by (simp add: parseEmbeddingFromDB_def)
  also have "\<dots> = v"
    using assms(2) by (simp add: parseFloat_printed map_idI)
  finally show ?thesis .
qed

text \<open>
  C9. An embedding vector of the generator's dimension, printed by
  \<open>formatEmbeddingForDB\<close> and read back by \<open>parseEmbeddingFromDB\<close>, comes back as the same
  vector, value by value (exactly, so within any tolerance).
\<close>

theorem embedding_text_roundtrip:
  assumes "length embedding = EMBEDDING_DIMENSION" and "\<forall>x \<in> set embedding. wf_num x"
  shows "parseEmbeddingFromDB (formatEmbeddingForDB embedding) = embedding"
proof -
  from assms(1) have "embedding \<noteq> []"
    by (auto simp: EMBEDDING_DIMENSION_def)
  then show ?thesis using assms(2) by (rule embedding_roundtrip)
qed

theorem embedding_text_roundtrip_witness:
  "length (replicate 384 (Dec True [3, 4, 5, 6] (- 1))) = EMBEDDING_DIMENSION
   \<and> wf_num (Dec True [3, 4, 5, 6] (- 1))
   \<and> num_to_string (Dec True [3, 4, 5, 6] (- 1)) = ''-0.03456''
   \<and> parseEmbeddingFromDB (formatEmbeddingForDB (replicate 384 (Dec True [3, 4, 5, 6] (- 1)))) =
       replicate 384 (Dec True [3, 4, 5, 6] (- 1))"
proof -
  have a: "length (replicate 384 (Dec True [3, 4, 5, 6] (- 1))) = EMBEDDING_DIMENSION"
    by (simp add: EMBEDDING_DIMENSION_def)
  have b: "\<forall>x \<in> set (replicate 384 (Dec True [3, 4, 5, 6] (- 1))). wf_num x"
    by (simp add: wf_num_def)
  have c: "num_to_string (Dec True [3, 4, 5, 6] (- 1)) = ''-0.03456''"
    by (simp add: num_to_string_def digit_char_def)
  have d: "wf_num (Dec True [3, 4, 5, 6] (- 1))"
    by (simp add: wf_num_def)
  show ?thesis
    using a c d embedding_text_roundtrip [OF a b] by blast
qed

text \<open>
  C10. The round trip holds for non-empty vectors only: a non-empty vector comes back with
  the same length and the same values, while the empty vector is printed as \<open>[]\<close>, whose
  inside splits into one empty piece, which \<open>parseFloat\<close> reads as \<open>NaN\<close>; the result is
  the one-element list of \<open>NaN\<close> and not the empty vector.
\<close>

theorem text_roundtrip_only_when_nonempty:
  "(embedding \<noteq> [] \<and> (\<forall>x \<in> set embedding. wf_num x) \<longrightarrow>
      length (parseEmbeddingFromDB (formatEmbeddingForDB embedding)) = length embedding
      \<and> parseEmbeddingFromDB (formatEmbeddingForDB embedding) = embedding)
   \<and> formatEmbeddingForDB [] = ''[]''
   \<and> split_char (CHR '','') [] (strip_brackets ''[]'') = ['''']
   \<and> parseEmbeddingFromDB (formatEmbeddingForDB []) = [NaN]
   \<and> parseEmbeddingFromDB (formatEmbeddingForDB []) \<noteq> []"
proof -
  have e: "formatEmbeddingForDB [] = ''[]''"
    by (simp add: formatEmbeddingForDB_def)
  have s: "split_char (CHR '','') [] (strip_brackets ''[]'') = ['''']"
    by (simp add: strip_brackets_def)
  have n: "parseFloat '''' = NaN"
    by (simp add: parseFloat_def read_sign_def)
  have p: "parseEmbeddingFromDB (formatEmbeddingForDB []) = [NaN]"
    by (simp add: parseEmbeddingFromDB_def e s n)
  show ?thesis
    using e s p embedding_roundtrip [of embedding] by simp
qed

theorem text_roundtrip_only_when_nonempty_witness:
  "[Dec False [1, 2, 3] 0, Dec True [5] (- 7), Zero] \<noteq> []
   \<and> wf_num (Dec False [1, 2, 3] 0) \<and> wf_num (Dec True [5] (- 7)) \<and> wf_num Zero
   \<and> formatEmbeddingForDB [Dec False [1, 2, 3] 0, Dec True [5] (- 7), Zero] = ''[0.123,-5e-8,0]''
   \<and> parseEmbeddingFromDB ''[0.123,-5e-8,0]'' = [Dec False [1, 2, 3] 0, Dec True [5] (- 7), Zero]"
proof -
  have a: "[Dec False [1, 2, 3] 0, Dec True [5] (- 7), Zero] \<noteq> []
      \<and> (\<forall>x \<in> set [Dec False [1, 2, 3] 0, Dec True [5] (- 7), Zero]. wf_num x)"
    by (simp add: wf_num_def)
  have f: "formatEmbeddingForDB [Dec False [1, 2, 3] 0, Dec True [5] (- 7), Zero] = ''[0.123,-5e-8,0]''"
    by code_simp
  have "parseEmbeddingFromDB (formatEmbeddingForDB [Dec False [1, 2, 3] 0, Dec True [5] (- 7), Zero]) =
      [Dec False [1, 2, 3] 0, Dec True [5] (- 7), Zero]"
    using text_roundtrip_only_when_nonempty [of "[Dec False [1, 2, 3] 0, Dec True [5] (- 7), Zero]"] a
    by blast
  moreover have "wf_num (Dec False [1, 2, 3] 0) \<and> wf_num (Dec True [5] (- 7)) \<and> wf_num Zero"
    by (simp add: wf_num_def)
  ultimately show ?thesis using f by simp
qed

section \<open>Properties of the job processor\<close>

lemma clause_loop_rows:
  "clause_loop e cid cs k d =
     d\<lparr>clause_rows := clause_rows d @
        List.map_filter (\<lambda>r. r) (map (\<lambda>(k, clause). attempt e cid k clause) (enumerate k cs))\<rparr>"
proof (induction cs arbitrary: k d)
  case Nil
  show ?case by (simp add: List.map_filter_simps)
next
  case (Cons c cs)
  show ?case
    by (cases "attempt e cid k c") (simp_all add: Cons.IH List.map_filter_simps)
qed

lemma clause_loop_persisted:
  "clause_loop e cid cs 0 d = d\<lparr>clause_rows := clause_rows d @ persisted_rows e cid cs\<rparr>"
  by (simp add: clause_loop_rows persisted_rows_def attempts_def)

text \<open>
  The tokenizer is called exactly when a tokenizer that finds no sentence leaves the result
  of \<open>segmentClauses\<close> empty, and the result is otherwise the same for every tokenizer.
\<close>

lemma segmentClauses_fallback:
  "segmentClauses tokenize text =
     (if segmentClauses (\<lambda>t. []) text = [] then sentence_loop (tokenize text) 0 []
      else segmentClauses (\<lambda>t. []) text)"
proof -
  define first where "first =
     (if length (split_re match_numbered [] text) > 3
      then numbered_loop (split_re match_numbered [] text) 1 []
      else paragraph_loop (split_re match_blank [] text) 0 [])"
  have none: "sentence_loop [] 0 [] = []"
    by (simp add: sentence_loop.simps [of "[]" 0 "[]"])
  have a: "segmentClauses tok text = (if first = [] then sentence_loop (tok text) 0 [] else first)" for tok
    by (simp add: segmentClauses_def Let_def first_def)
  show ?thesis
    by (simp add: a none)
qed

lemma segmentClauses_or_error_returns:
  "sentence_tokenizer e text = Inr sentences \<Longrightarrow>
   segmentClauses_or_error e text = Inr (segmentClauses (\<lambda>t. sentences) text)"
  by (simp add: segmentClauses_or_error_def)

lemma map_clauses_length:
  "map_clauses e raw = Inr ps \<Longrightarrow> length ps = length raw"
  by (induction raw arbitrary: ps) (auto split: sum.splits)

lemma map_clauses_returns:
  "\<forall>c \<in> set raw. \<exists>p. process_clause e c = Inr p \<Longrightarrow> \<exists>ps. map_clauses e raw = Inr ps"
  by (induction raw) (auto split: sum.splits)

lemma process_clause_throws:
  "compromise_entities e (clause_text clause) = Inl err \<Longrightarrow> process_clause e clause = Inl err"
  by (simp add: process_clause_def classifyClause_def)

lemma run_job_success:
  assumes "query_error e JobProcessing = None" and "query_error e ContractExtracted = None"
    and "query_error e ContractAnalyzed = None" and "query_error e JobCompleted = None"
    and "extractText e (filePath job) (fileType job) = Inr ex"
    and "extractAndClassifyClauses e (ex_text ex) = Inr clauses"
  shows "run_job e job d0 =
     (d0\<lparr>job_status := ''completed'',
         contract_extracted_text := Some (ex_text ex),
         contract_metadata := Some (ex_metadata ex),
         contract_status := ''analyzed'',
         clause_rows := clause_rows d0 @ persisted_rows e (contractId job) clauses,
         job_result := Some \<lparr>success = True, textLength = length (ex_text ex),
           summary_pages = pages (ex_metadata ex), summary_wordCount = wordCount (ex_metadata ex),
           clauseCount = length clauses\<rparr>\<rparr>,
      Inr \<lparr>success = True, textLength = length (ex_text ex),
           summary_pages = pages (ex_metadata ex), summary_wordCount = wordCount (ex_metadata ex),
           clauseCount = length clauses\<rparr>)"
  using assms by (simp add: run_job_def Let_def clause_loop_persisted)

lemma process_success:
  assumes "query_error e JobProcessing = None" and "query_error e ContractExtracted = None"
    and "query_error e ContractAnalyzed = None" and "query_error e JobCompleted = None"
    and "extractText e (filePath job) (fileType job) = Inr ex"
    and "extractAndClassifyClauses e (ex_text ex) = Inr clauses"
  shows "process e job d0 = run_job e job d0"
  by (simp add: process_def run_job_success [OF assms])

lemma process_extraction_failure:
  assumes "query_error e JobProcessing = None" and "query_error e ContractFailed = None"
    and "query_error e JobFailed = None"
    and "extractText e (filePath job) (fileType job) = Inl err"
  shows "process e job d0 =
     (d0\<lparr>job_status := ''failed'', contract_status := ''failed'',
         job_error := Some (error_message err)\<rparr>, Inl err)"
  using assms by (simp add: process_def run_job_def Let_def)

lemma extractText_unsupported:
  assumes "toLowerCase (path_extname e path) \<notin> {''.pdf'', ''.docx'', ''.doc''}"
    and "ftype \<noteq> ''application/pdf''" and "\<not> str_includes ftype ''wordprocessingml''"
  shows "extractText e path ftype =
     Inl (Error (''Unsupported file type: '' @ toLowerCase (path_extname e path)))"
  using assms by (simp add: extractText_def Let_def)

text \<open>
  An error of \<open>extractAndClassifyClauses\<close> is a failure of the whole job as well: it reaches
  the outer \<open>catch\<close> after the extracted text was stored and before any clause is inserted.
\<close>

lemma process_classification_failure:
  assumes "query_error e JobProcessing = None" and "query_error e ContractExtracted = None"
    and "query_error e ContractFailed = None" and "query_error e JobFailed = None"
    and "extractText e (filePath job) (fileType job) = Inr ex"
    and "extractAndClassifyClauses e (ex_text ex) = Inl err"
  shows "process e job d0 =
     (d0\<lparr>job_status := ''failed'',
         contract_extracted_text := Some (ex_text ex),
         contract_metadata := Some (ex_metadata ex),
         contract_status := ''failed'',
         job_error := Some (error_message err)\<rparr>, Inl err)"
  using assms by (simp add: process_def run_job_def Let_def)

lemma length_persisted_rows:
  "length (persisted_rows e cid cs) + length (filter (\<lambda>r. r = None) (attempts e cid cs)) = length cs"
proof -
  have "length (persisted_rows e cid cs) = length (filter (\<lambda>r. r \<noteq> None) (attempts e cid cs))"
    by (simp add: persisted_rows_def List.map_filter_def)
  moreover have "length (attempts e cid cs) = length cs"
    by (simp add: attempts_def)
  ultimately show ?thesis
    using sum_length_filter_compl [of "\<lambda>r. r \<noteq> None" "attempts e cid cs"] by simp
qed

lemma failed_attempts_are_embedding_failures:
  assumes "\<forall>k. query_error e (InsertClause k) = None"
  shows "length (filter (\<lambda>r. r = None) (attempts e cid cs)) = length (embedding_failures e cs)"
proof -
  have "(attempt e cid k c = None) = isl (generateEmbedding e k (c_text c))" for k c
    using assms by (cases "generateEmbedding e k (c_text c)") (simp_all add: attempt_def)
  then have "filter (\<lambda>r. r = None) (attempts e cid cs) =
      map (\<lambda>(k, clause). attempt e cid k clause) (embedding_failures e cs)"
    by (simp add: attempts_def embedding_failures_def filter_map comp_def case_prod_unfold)
  then show ?thesis by simp
qed

subsection \<open>The concrete run\<close>

lemma demo_queries: "query_error demo_env st = None"
  by (simp add: demo_env_def)

lemma demo_len: "length demo_text = 431"
  by code_simp

lemma demo_words: "length (split_re match_spaces [] demo_text) = 73"
  by code_simp

lemma demo_clauses_length0: "length (segmentClauses whole_text demo_text) = 10"
  by code_simp

lemma demo_extractText:
  "extractText demo_env (filePath demo_job) (fileType demo_job) = Inr demo_extraction"
  by (simp add: extractText_def extractFromPDF_def demo_env_def demo_job_def
        demo_extraction_def Let_def demo_len demo_words)

lemma demo_process_clause: "\<exists>p. process_clause demo_env c = Inr p"
  by (simp add: process_clause_def classifyClause_def demo_env_def no_entities_def Let_def
      split: prod.splits)

lemma demo_clauses:
  "\<exists>clauses. extractAndClassifyClauses demo_env (ex_text demo_extraction) = Inr clauses
     \<and> length clauses = 10"
proof -
  have "segmentClauses (\<lambda>t. whole_text demo_text) demo_text = segmentClauses whole_text demo_text"
    by (simp add: segmentClauses_def)
  then have seg: "segmentClauses_or_error demo_env demo_text =
      Inr (segmentClauses whole_text demo_text)"
    by (simp add: segmentClauses_or_error_def demo_env_def)
  obtain ps where ps: "map_clauses demo_env (segmentClauses whole_text demo_text) = Inr ps"
    using map_clauses_returns [of "segmentClauses whole_text demo_text" demo_env]
      demo_process_clause by blast
  have "length ps = 10"
    using map_clauses_length [OF ps] demo_clauses_length0 by simp
  then show ?thesis
    by (simp add: extractAndClassifyClauses_def demo_extraction_def seg ps)
qed

lemma enumerate_filter_index:
  "length (filter (\<lambda>(k, c). P k) (enumerate n cs)) = length (filter P [n..<n + length cs])"
proof -
  have "filter P (map fst (enumerate n cs)) = map fst (filter (\<lambda>(k, c). P k) (enumerate n cs))"
    by (simp only: filter_map comp_def case_prod_unfold)
  then have "length (filter P (map fst (enumerate n cs))) =
      length (filter (\<lambda>(k, c). P k) (enumerate n cs))"
    by simp
  then show ?thesis by (simp only: map_fst_enumerate)
qed

lemma demo_embedding_failures:
  assumes "length cs = 10"
  shows "length (embedding_failures demo_env cs) = 1"
proof -
  have "embedding_failures demo_env cs = filter (\<lambda>(k, c). k = 3) (enumerate 0 cs)"
    by (simp add: embedding_failures_def demo_env_def case_prod_unfold)
  then have "length (embedding_failures demo_env cs) = length (filter (\<lambda>k. k = 3) [0..<length cs])"
    using enumerate_filter_index [of "\<lambda>k. k = 3" 0 cs] by simp
  moreover have "length (filter (\<lambda>k. k = 3) [0..<10::nat]) = 1"
    by code_simp
  ultimately show ?thesis
    by (simp only: assms)
qed

text \<open>
  The example of the specification, with an entity extraction that returns: two clauses,
  at positions 0 and 1, the first of type \<open>confidentiality\<close>, the second of type
  \<open>termination\<close> and of medium risk.
\<close>

lemma spec_scenario:
  "map_sum id
     (map (\<lambda>c. (c_position c, c_clause_type c, c_risk_level c, map pattern (c_risk_flags c))))
     (extractAndClassifyClauses demo_env
       (''1. CONFIDENTIALITY'' @ [LF] @
        ''The parties shall keep all proprietary information confidential and shall not disclose trade secrets.'' @
        [LF, LF] @ ''2. TERMINATION'' @ [LF] @
        ''Either party may terminate this agreement at any time without cause.'')) =
   Inr [(0, ''confidentiality'', ''low'', []),
        (1, ''termination'', ''medium'', [''may terminate'', ''at any time'', ''without cause''])]"
  by code_simp

subsection \<open>The claims on the job processor\<close>

text \<open>
  C2. When the extraction and \<open>extractAndClassifyClauses\<close> return and the statements on the
  contract and the job do not fail, a failure of the embedding or of the insert of one
  clause is caught and does not abort the job: every clause is attempted, the rows added
  to the table are those of the clauses whose attempt succeeded, the contract ends as
  \<open>analyzed\<close> and the job as \<open>completed\<close>. In particular, when the embedding fails for
  exactly one of 10 clauses and no insert fails, exactly 9 rows are added.
\<close>

theorem clause_failure_does_not_abort_job:
  assumes "query_error e JobProcessing = None" and "query_error e ContractExtracted = None"
    and "query_error e ContractAnalyzed = None" and "query_error e JobCompleted = None"
    and "extractText e (filePath job) (fileType job) = Inr ex"
    and "extractAndClassifyClauses e (ex_text ex) = Inr clauses"
  shows "contract_status (fst (process e job d0)) = ''analyzed''
       \<and> job_status (fst (process e job d0)) = ''completed''
       \<and> \<not> isl (snd (process e job d0))
       \<and> clause_rows (fst (process e job d0)) =
           clause_rows d0 @ persisted_rows e (contractId job) clauses
       \<and> persisted_rows e (contractId job) clauses =
           List.map_filter (\<lambda>r. r)
             (map (\<lambda>(k, clause). attempt e (contractId job) k clause) (enumerate 0 clauses))
       \<and> (length clauses = 10
            \<and> length (embedding_failures e clauses) = 1
            \<and> (\<forall>k. query_error e (InsertClause k) = None)
          \<longrightarrow> length (persisted_rows e (contractId job) clauses) = 9)"
proof -
  have p: "process e job d0 = run_job e job d0"
    by (rule process_success [OF assms])
  note r = run_job_success [OF assms, of d0]
  have nine: "length (persisted_rows e (contractId job) clauses) = 9"
    if "length clauses = 10" and "length (embedding_failures e clauses) = 1"
      and "\<forall>k. query_error e (InsertClause k) = None"
    using length_persisted_rows [of e "contractId job" clauses]
      failed_attempts_are_embedding_failures [OF that(3), of "contractId job" clauses] that(1,2)
    by simp
  show ?thesis
    using nine by (simp add: p r persisted_rows_def attempts_def)
qed

theorem clause_failure_does_not_abort_job_witness:
  "query_error demo_env JobProcessing = None
   \<and> query_error demo_env ContractExtracted = None
   \<and> query_error demo_env ContractAnalyzed = None
   \<and> query_error demo_env JobCompleted = None
   \<and> extractText demo_env (filePath demo_job) (fileType demo_job) = Inr demo_extraction
   \<and> (\<exists>clauses. extractAndClassifyClauses demo_env (ex_text demo_extraction) = Inr clauses
         \<and> length clauses = 10 \<and> length (embedding_failures demo_env clauses) = 1)
   \<and> contract_status (fst (process demo_env demo_job demo_db)) = ''analyzed''
   \<and> job_status (fst (process demo_env demo_job demo_db)) = ''completed''
   \<and> length (clause_rows (fst (process demo_env demo_job demo_db))) = 9"
proof -
  obtain clauses where cl: "extractAndClassifyClauses demo_env (ex_text demo_extraction) = Inr clauses"
    and len: "length clauses = 10"
    using demo_clauses by blast
  note fail = demo_embedding_failures [OF len]
  note t = clause_failure_does_not_abort_job
    [OF demo_queries demo_queries demo_queries demo_queries demo_extractText cl, of demo_db]
  have all: "\<forall>k. query_error demo_env (InsertClause k) = None"
    by (simp add: demo_queries)
  have "length (persisted_rows demo_env (contractId demo_job) clauses) = 9"
    using t len fail all by blast
  moreover have "clause_rows (fst (process demo_env demo_job demo_db)) =
      clause_rows demo_db @ persisted_rows demo_env (contractId demo_job) clauses"
    using t by blast
  moreover have "clause_rows demo_db = []"
    by (simp add: demo_db_def)
  ultimately have nine: "length (clause_rows (fst (process demo_env demo_job demo_db))) = 9"
    by simp
  have st: "contract_status (fst (process demo_env demo_job demo_db)) = ''analyzed''
      \<and> job_status (fst (process demo_env demo_job demo_db)) = ''completed''"
    using t by blast
  show ?thesis
    using demo_queries demo_extractText cl len fail nine st by blast
qed

text \<open>
  C3, as stated, fails: in the concrete run, where \<open>extractAndClassifyClauses\<close> returns ten
  clauses and the embedding of one of them throws, the summary of the completed job records
  10 clauses and 9 rows are in the table.
\<close>

theorem clause_count_counterexample:
  "map_option clauseCount (job_result (fst (process demo_env demo_job demo_db))) = Some 10
   \<and> length (clause_rows (fst (process demo_env demo_job demo_db))) = 9"
proof -
  obtain clauses where cl: "extractAndClassifyClauses demo_env (ex_text demo_extraction) = Inr clauses"
    and len: "length clauses = 10"
    using demo_clauses by blast
  have all: "\<forall>k. query_error demo_env (InsertClause k) = None"
    by (simp add: demo_queries)
  have p: "process demo_env demo_job demo_db = run_job demo_env demo_job demo_db"
    by (rule process_success
        [OF demo_queries demo_queries demo_queries demo_queries demo_extractText cl])
  note r = run_job_success
    [OF demo_queries demo_queries demo_queries demo_queries demo_extractText cl, of demo_db]
  have "length (persisted_rows demo_env (contractId demo_job) clauses) = 9"
    using length_persisted_rows [of demo_env "contractId demo_job" clauses]
      failed_attempts_are_embedding_failures [OF all, of "contractId demo_job" clauses]
      len demo_embedding_failures [OF len]
    by simp
  then show ?thesis
    unfolding p r by (simp add: len demo_db_def)
qed

text \<open>
  C3, as amended. When the job completes (the extraction and \<open>extractAndClassifyClauses\<close>
  return and the statements on the contract and the job do not fail), the clause count of
  the result summary is the number of clauses that \<open>extractAndClassifyClauses\<close> returned,
  all of which were attempted: the number of clauses persisted in the run plus the number
  of clauses whose embedding or insert failed.
\<close>

theorem clause_count_is_number_attempted:
  assumes "query_error e JobProcessing = None" and "query_error e ContractExtracted = None"
    and "query_error e ContractAnalyzed = None" and "query_error e JobCompleted = None"
    and "extractText e (filePath job) (fileType job) = Inr ex"
    and "extractAndClassifyClauses e (ex_text ex) = Inr clauses"
  shows "job_status (fst (process e job d0)) = ''completed''
       \<and> map_option clauseCount (job_result (fst (process e job d0))) = Some (length clauses)
       \<and> length clauses =
           length (persisted_rows e (contractId job) clauses)
           + length (filter (\<lambda>r. r = None) (attempts e (contractId job) clauses))
       \<and> length (clause_rows (fst (process e job d0))) =
           length (clause_rows d0) + length (persisted_rows e (contractId job) clauses)"
proof -
  have p: "process e job d0 = run_job e job d0"
    by (rule process_success [OF assms])
  show ?thesis
    using length_persisted_rows [of e "contractId job" clauses]
    by (simp add: p run_job_success [OF assms])
qed

theorem clause_count_is_number_attempted_witness:
  "query_error demo_env JobProcessing = None
   \<and> query_error demo_env ContractExtracted = None
   \<and> query_error demo_env ContractAnalyzed = None
   \<and> query_error demo_env JobCompleted = None
   \<and> extractText demo_env (filePath demo_job) (fileType demo_job) = Inr demo_extraction
   \<and> (\<exists>clauses. extractAndClassifyClauses demo_env (ex_text demo_extraction) = Inr clauses
         \<and> length clauses = 10)
   \<and> job_status (fst (process demo_env demo_job demo_db)) = ''completed''
   \<and> map_option clauseCount (job_result (fst (process demo_env demo_job demo_db))) = Some 10"
proof -
  obtain clauses where cl: "extractAndClassifyClauses demo_env (ex_text demo_extraction) = Inr clauses"
    and len: "length clauses = 10"
    using demo_clauses by blast
  note t = clause_count_is_number_attempted
    [OF demo_queries demo_queries demo_queries demo_queries demo_extractText cl, of demo_db]
  have "job_status (fst (process demo_env demo_job demo_db)) = ''completed''
      \<and> map_option clauseCount (job_result (fst (process demo_env demo_job demo_db))) = Some 10"
    using t len by simp
  then show ?thesis
    using demo_queries demo_extractText cl len by blast
qed

text \<open>
  C4. When the text extraction fails (for an unsupported file type, it fails with the
  message \<open>Unsupported file type\<close>, see \<open>extractText_unsupported\<close>) and the statements on
  the contract and the job do not fail, the contract ends as \<open>failed\<close>, the job ends as
  \<open>failed\<close> with the message of the error, and no row is added to the table of clauses.
\<close>

theorem extraction_failure_fails_job:
  assumes "query_error e JobProcessing = None" and "query_error e ContractFailed = None"
    and "query_error e JobFailed = None"
    and "extractText e (filePath job) (fileType job) = Inl err"
  shows "contract_status (fst (process e job d0)) = ''failed''
       \<and> job_status (fst (process e job d0)) = ''failed''
       \<and> job_error (fst (process e job d0)) = Some (error_message err)
       \<and> job_error (fst (process e job d0)) \<noteq> None
       \<and> clause_rows (fst (process e job d0)) = clause_rows d0
       \<and> snd (process e job d0) = Inl err"
  by (simp add: process_extraction_failure [OF assms])

theorem extraction_failure_fails_job_witness:
  "query_error demo_env JobProcessing = None
   \<and> query_error demo_env ContractFailed = None
   \<and> query_error demo_env JobFailed = None
   \<and> extractText demo_env (filePath demo_job_txt) (fileType demo_job_txt) =
       Inl (Error ''Unsupported file type: .txt'')
   \<and> contract_status (fst (process demo_env demo_job_txt demo_db)) = ''failed''
   \<and> job_status (fst (process demo_env demo_job_txt demo_db)) = ''failed''
   \<and> job_error (fst (process demo_env demo_job_txt demo_db)) = Some ''Unsupported file type: .txt''
   \<and> clause_rows (fst (process demo_env demo_job_txt demo_db)) = []"
proof -
  have x: "extractText demo_env (filePath demo_job_txt) (fileType demo_job_txt) =
      Inl (Error ''Unsupported file type: .txt'')"
    by code_simp
  note t = extraction_failure_fails_job [OF demo_queries demo_queries demo_queries x, of demo_db]
  have "clause_rows demo_db = []" by (simp add: demo_db_def)
  then show ?thesis
    using t x demo_queries by simp
qed


end
